theory Spec2Isabelle
  imports Main
begin

section \<open>Values shared by the broker and the automation base class\<close>

text \<open>
  JavaScript exceptions are values. \<open>Error\<close> is what \<^verbatim>\<open>throw new Error(msg)\<close> raises,
  \<open>TypeError\<close> is what reading a property of \<^verbatim>\<open>undefined\<close> raises, and \<open>Thrown\<close> is
  any value thrown by a callback.
\<close>

datatype js_error = Error string | TypeError string | Thrown string

text \<open>JSON-like values carried in attributes and in service-call data.\<close>

datatype json =
    JNull
  | JBool bool
  | JNum int
  | JStr string
  | JArr "json list"
  | JObj "(string \<times> json) list"

text \<open>
  A timestamp of a state is either the text received on the wire or the \<^verbatim>\<open>Date\<close> object
  built from such a text. \<open>new_Date\<close> is \<^verbatim>\<open>new Date(x)\<close>: it builds the \<^verbatim>\<open>Date\<close> of a
  text and copies a \<^verbatim>\<open>Date\<close>.
\<close>

datatype timestamp = TimeText string | TimeDate string

fun new_Date :: "timestamp \<Rightarrow> timestamp" where
  "new_Date (TimeText s) = TimeDate s"
| "new_Date (TimeDate s) = TimeDate s"

text \<open>
  Modelled from the spec: the \<^verbatim>\<open>IState\<close> interface (interfaces/IState is not among the
  sources). Section 3 gives an entity state a unique entity identifier, a status value, a
  mapping of named attributes and two timestamps; the field names are the ones the broker
  reads.
\<close>

record IState =
  entity_id :: string
  state :: string
  attributes :: "(string \<times> json) list"
  last_changed :: timestamp
  last_updated :: timestamp

type_synonym cache = "string \<rightharpoonup> IState"

text \<open>
  What a call of a listener hands back when it returns: a value that is not a promise
  (\<^verbatim>\<open>undefined\<close> for a function without a result), or a promise, as an \<^verbatim>\<open>async\<close>
  function returns, together with how that promise settles later: \<open>None\<close> when it
  resolves, \<open>Some e\<close> when it rejects with \<open>e\<close>. An exception in the body of an
  \<^verbatim>\<open>async\<close> function is such a rejection: the call itself returns.
\<close>

datatype returned = NoPromise | Promise "js_error option"

text \<open>
  A callback is a function of what it can observe when it is called: the broker's state
  cache (which it reads through \<^verbatim>\<open>getState\<close>) and its arguments. Its result is \<open>Inl e\<close>
  when the call throws \<open>e\<close> and \<open>Inr r\<close> when it returns \<open>r\<close>. What a callback does to
  the rest of the world is outside the model.
\<close>

type_synonym IStateCallback = "cache \<Rightarrow> IState \<Rightarrow> IState option \<Rightarrow> js_error + returned"
type_synonym ITriggerCallback = "cache \<Rightarrow> js_error + returned"

record state_listener =
  sl_id :: int
  sl_callback :: IStateCallback

record automation_listener =
  al_id :: int
  al_callback :: ITriggerCallback

record listenerInfo =
  li_id :: int
  li_entityId :: string

text \<open>
  What the broker and a module leave behind for an observer: every invocation of a state
  or trigger callback with the cache and the arguments it was given, every invocation of a
  delayed task or of a per-minute callback with its id, every \<^verbatim>\<open>unsubscribe\<close> sent to
  the mqtt client, and every \<^verbatim>\<open>Logger.error\<close> call. The
  \<^verbatim>\<open>Logger.debug\<close>, \<^verbatim>\<open>Logger.info\<close> and \<^verbatim>\<open>Logger.log\<close> lines print diagnostics only and are
  left out.
\<close>

type_synonym task_id = "int \<times> int"

datatype trace_entry =
    StateCall int cache IState "IState option"
  | TriggerCall int cache
  | TaskCall task_id
  | MinuteCall task_id
  | Unsubscribed string nat
  | LogError js_error

type_synonym trace = "trace_entry list"

section \<open>The broker (class API)\<close>

record API =
  states :: cache
  stateListeners :: "string \<rightharpoonup> state_listener list"
  automationListeners :: "string \<rightharpoonup> automation_listener list"

text \<open>
  A statement takes a state and completes normally (\<open>None\<close>) or by throwing
  (\<open>Some e\<close>); either way it leaves a state, since what it changed before throwing stays
  changed. \<open>seq\<close> is \<^verbatim>\<open>f; g\<close>, \<open>try_catch\<close> is \<^verbatim>\<open>try { body } catch (e) { handler(e) }\<close>
  and \<open>for_of\<close> is \<^verbatim>\<open>for (const x of xs) body\<close> over an array that the body does not
  change: an exception that leaves the body of the loop leaves the loop.
\<close>

type_synonym 's stmt = "'s \<Rightarrow> js_error option \<times> 's"

definition seq :: "'s stmt \<Rightarrow> 's stmt \<Rightarrow> 's stmt" where
  "seq f g s = (case f s of (None, s') \<Rightarrow> g s' | (Some e, s') \<Rightarrow> (Some e, s'))"

definition try_catch :: "'s stmt \<Rightarrow> (js_error \<Rightarrow> 's stmt) \<Rightarrow> 's stmt" where
  "try_catch body handler s =
     (case body s of (None, s') \<Rightarrow> (None, s') | (Some e, s') \<Rightarrow> handler e s')"

fun for_of :: "'a list \<Rightarrow> ('a \<Rightarrow> 's stmt) \<Rightarrow> 's stmt" where
  "for_of [] body s = (None, s)"
| "for_of (x # xs) body s =
     (case body x s of (None, s') \<Rightarrow> for_of xs body s' | (Some e, s') \<Rightarrow> (Some e, s'))"

subsection \<open>Subscribing and unsubscribing\<close>

text \<open>
  \<open>rnd\<close> is the value of \<^verbatim>\<open>Math.floor(Math.random() * 10000)\<close>, an integer from 0 to 9999,
  and \<open>now\<close> the value of \<^verbatim>\<open>new Date().getTime()\<close>, at the call.
\<close>

definition onState :: "API \<Rightarrow> string \<Rightarrow> IStateCallback \<Rightarrow> int \<Rightarrow> int \<Rightarrow> listenerInfo \<times> API" where
  "onState api entityId callback rnd now =
     (let i = rnd + now;
          info = \<lparr>li_id = i, li_entityId = entityId\<rparr>
      in case stateListeners api entityId of
           None \<Rightarrow>
             (info, api\<lparr>stateListeners :=
                (stateListeners api)(entityId \<mapsto> [\<lparr>sl_id = i, sl_callback = callback\<rparr>])\<rparr>)
         | Some listeners \<Rightarrow>
             (info, api\<lparr>stateListeners :=
                (stateListeners api)(entityId \<mapsto>
                   listeners @ [\<lparr>sl_id = i, sl_callback = callback\<rparr>])\<rparr>))"

definition onAutomation :: "API \<Rightarrow> string \<Rightarrow> ITriggerCallback \<Rightarrow> int \<Rightarrow> int \<Rightarrow> listenerInfo \<times> API" where
  "onAutomation api entityId callback rnd now =
     (let i = rnd + now;
          info = \<lparr>li_id = i, li_entityId = entityId\<rparr>
      in case automationListeners api entityId of
           None \<Rightarrow>
             (info, api\<lparr>automationListeners :=
                (automationListeners api)(entityId \<mapsto> [\<lparr>al_id = i, al_callback = callback\<rparr>])\<rparr>)
         | Some listeners \<Rightarrow>
             (info, api\<lparr>automationListeners :=
                (automationListeners api)(entityId \<mapsto>
                   listeners @ [\<lparr>al_id = i, al_callback = callback\<rparr>])\<rparr>))"

definition clearOnState :: "API \<Rightarrow> string \<Rightarrow> int \<Rightarrow> API" where
  "clearOnState api entityId i =
     (case stateListeners api entityId of
        None \<Rightarrow> api
      | Some listeners \<Rightarrow>
          (let listeners' = filter (\<lambda>l. sl_id l \<noteq> i) listeners
           in if length listeners' = 0
              then api\<lparr>stateListeners := (stateListeners api)(entityId := None)\<rparr>
              else api\<lparr>stateListeners := (stateListeners api)(entityId \<mapsto> listeners')\<rparr>))"

definition clearOnAutomation :: "API \<Rightarrow> string \<Rightarrow> int \<Rightarrow> API" where
  "clearOnAutomation api entityId i =
     (case automationListeners api entityId of
        None \<Rightarrow> api
      | Some listeners \<Rightarrow>
          (let listeners' = filter (\<lambda>l. al_id l \<noteq> i) listeners
           in if length listeners' = 0
              then api\<lparr>automationListeners := (automationListeners api)(entityId := None)\<rparr>
              else api\<lparr>automationListeners := (automationListeners api)(entityId \<mapsto> listeners')\<rparr>))"

subsection \<open>Reading the cache\<close>

definition getState :: "API \<Rightarrow> string \<Rightarrow> js_error + IState" where
  "getState api entityId =
     (case states api entityId of
        None \<Rightarrow> Inl (Error (entityId @ '' state not available''))
      | Some s \<Rightarrow> Inr s)"

subsection \<open>Event dispatch\<close>

text \<open>
  The payload of a \<^verbatim>\<open>state_changed\<close> event and of an \<^verbatim>\<open>automation_triggered\<close> event
  (\<^verbatim>\<open>message.data\<close>). A \<^verbatim>\<open>null\<close> state is \<open>None\<close>.
\<close>

record state_changed =
  sc_entity_id :: string
  new_state :: "IState option"
  old_state :: "IState option"

record automation_triggered =
  at_name :: string
  at_entity_id :: string

text \<open>
  The handler that \<^verbatim>\<open>_onStateChange\<close> subscribes. It returns on a \<^verbatim>\<open>null\<close> new state;
  otherwise it stores the new state under the entity identifier of the new state and runs
  the listeners registered under that identifier, each in a \<^verbatim>\<open>try\<close> whose \<^verbatim>\<open>catch\<close>
  calls \<^verbatim>\<open>Logger.error\<close>. What a listener returns is discarded: the call is not
  awaited, and a promise it returns is given no handler. The result is how the handler
  completes (\<open>Some e\<close>: the exception \<open>e\<close> leaves it, towards the connection), the
  broker it leaves and what was observed.
\<close>

definition logger_error :: "js_error \<Rightarrow> trace stmt" where
  "logger_error e tr = (None, tr @ [LogError e])"

definition call_state_listener ::
  "cache \<Rightarrow> IState \<Rightarrow> IState option \<Rightarrow> state_listener \<Rightarrow> trace stmt" where
  "call_state_listener c newState oldState listener tr =
     (case sl_callback listener c newState oldState of
        Inl e \<Rightarrow> (Some e, tr @ [StateCall (sl_id listener) c newState oldState])
      | Inr u \<Rightarrow> (None, tr @ [StateCall (sl_id listener) c newState oldState]))"

definition API_onStateChange :: "API \<Rightarrow> state_changed \<Rightarrow> js_error option \<times> API \<times> trace" where
  "API_onStateChange api msg =
     (case new_state msg of
        None \<Rightarrow> (None, api, [])
      | Some newState \<Rightarrow>
          (let api' = api\<lparr>states := (states api)(entity_id newState \<mapsto> newState)\<rparr>
           in case stateListeners api' (entity_id newState) of
                None \<Rightarrow> (None, api', [])
              | Some listeners \<Rightarrow>
                  (case for_of listeners
                          (\<lambda>listener.
                             try_catch
                               (call_state_listener (states api') newState (old_state msg) listener)
                               logger_error) [] of
                     (r, tr) \<Rightarrow> (r, api', tr))))"

definition call_automation_listener :: "cache \<Rightarrow> automation_listener \<Rightarrow> trace stmt" where
  "call_automation_listener c listener tr =
     (case al_callback listener c of
        Inl e \<Rightarrow> (Some e, tr @ [TriggerCall (al_id listener) c])
      | Inr u \<Rightarrow> (None, tr @ [TriggerCall (al_id listener) c]))"

definition API_onAutomationTrigger ::
  "API \<Rightarrow> automation_triggered \<Rightarrow> js_error option \<times> API \<times> trace" where
  "API_onAutomationTrigger api msg =
     (case automationListeners api (at_entity_id msg) of
        None \<Rightarrow> (None, api, [])
      | Some listeners \<Rightarrow>
          (case for_of listeners
                  (\<lambda>listener. try_catch (call_automation_listener (states api) listener) logger_error)
                  [] of
             (r, tr) \<Rightarrow> (r, api, tr)))"

subsection \<open>Synchronising the cache\<close>

definition date_state :: "IState \<Rightarrow> IState" where
  "date_state s =
     s\<lparr>last_changed := new_Date (last_changed s), last_updated := new_Date (last_updated s)\<rparr>"

text \<open>
  \<open>fetched\<close> is how the promise of \<^verbatim>\<open>this._connection.getStates()\<close> settles: \<open>Inl e\<close>
  when it rejects with \<open>e\<close>, \<open>Inr None\<close> when it resolves with nothing, \<open>Inr (Some sts)\<close>
  when it resolves with the array \<open>sts\<close>. On a rejection \<^verbatim>\<open>.catch(reject)\<close> rejects the
  promise of \<^verbatim>\<open>_syncStates\<close>, and the \<^verbatim>\<open>resolve()\<close> that follows has no effect. Each
  fetched state is stored under its entity identifier, in the order of the array, into the
  map that is already there.
\<close>

definition API_syncStates :: "API \<Rightarrow> js_error + IState list option \<Rightarrow> js_error + API" where
  "API_syncStates api fetched =
     (case fetched of
        Inl e \<Rightarrow> Inl e
      | Inr None \<Rightarrow> Inr api
      | Inr (Some sts) \<Rightarrow>
          Inr (api\<lparr>states :=
                 foldl (\<lambda>m s. m(entity_id s \<mapsto> s)) (states api) (map date_state sts)\<rparr>))"

subsection \<open>Calling a service\<close>

text \<open>
  The caller's \<open>data\<close> is \<open>None\<close> for \<^verbatim>\<open>null\<close> or \<^verbatim>\<open>undefined\<close> and \<open>Some d\<close> for an
  object \<open>d\<close> (an object is truthy, and \<^verbatim>\<open>data !== {}\<close> holds of every value). The
  entity is \<open>None\<close> for \<^verbatim>\<open>null\<close>; \<^verbatim>\<open>!entityId\<close> holds of \<^verbatim>\<open>null\<close> and of the empty
  string. \<open>conn\<close> is \<^verbatim>\<open>this._connection.callService\<close>: \<open>Inl e\<close> when its promise rejects
  with \<open>e\<close>. The result holds the request that was forwarded, how the returned promise
  settles, and what was logged.
\<close>

record service_request =
  req_domain :: string
  req_service :: string
  req_options :: "string \<rightharpoonup> json"

definition callService ::
  "(service_request \<Rightarrow> js_error + json) \<Rightarrow> string \<Rightarrow> string \<Rightarrow> string option \<Rightarrow>
   (string \<rightharpoonup> json) option \<Rightarrow> service_request \<times> (js_error + json) \<times> trace" where
  "callService conn domain service entityId data =
     (let options = [''entity_id'' \<mapsto> (case entityId of None \<Rightarrow> JNull | Some s \<Rightarrow> JStr s)];
          options = (case data of None \<Rightarrow> options | Some d \<Rightarrow> options ++ d);
          options = (if entityId = None \<or> entityId = Some []
                     then options(''entity_id'' := None) else options);
          request = \<lparr>req_domain = domain, req_service = service, req_options = options\<rparr>
      in case conn request of
           Inr returnedData \<Rightarrow> (request, Inr returnedData, [])
         | Inl e \<Rightarrow> (request, Inl e, [LogError e]))"

section \<open>The automation base class (class Automation)\<close>

text \<open>
  A delayed task and a per-minute task. The id \<^verbatim>\<open>`${Date.now()}-${n}`\<close> is the pair of
  the clock reading and the random suffix \<open>n\<close>. The date of a delayed task is the time
  value, in milliseconds, of a valid \<^verbatim>\<open>Date\<close>, which is what \<^verbatim>\<open>>=\<close> and \<^verbatim>\<open><\<close>
  compare. A task's callback is called with no argument: \<open>Inl e\<close> when the call itself
  throws \<open>e\<close>, \<open>Inr ()\<close> when it returns a value or a promise.
\<close>

record IQueue =
  q_id :: task_id
  q_date :: int
  q_callback :: "unit \<Rightarrow> js_error + unit"

record IEachMinute =
  em_id :: task_id
  em_callback :: "unit \<Rightarrow> js_error + unit"

record Automation =
  timeouts :: "nat list"
  intervals :: "nat list"
  eachMinutes :: "IEachMinute list"
  lastMinute :: nat
  mqttSubscriptions :: "(string \<times> nat) list"
  stateSubscriptions :: "listenerInfo list"
  automationSubscriptions :: "listenerInfo list"
  queue :: "IQueue list"
  title :: string
  description :: string

text \<open>
  The host's timers: a \<^verbatim>\<open>NodeJS.Timeout\<close> handle is a number, \<open>active\<close> holds the handles
  of the timeouts and intervals that have been set and not cleared, and \<open>next_handle\<close> is
  the handle the next \<^verbatim>\<open>setTimeout\<close> or \<^verbatim>\<open>setInterval\<close> of the host returns. What a timer
  runs, and when, is not part of the model.
\<close>

record Node =
  active :: "nat set"
  next_handle :: nat

text \<open>
  An execution of \<^verbatim>\<open>_checkQueue\<close> that is suspended at its \<^verbatim>\<open>await\<close>: the \<open>now\<close> it
  read, the index of the element whose callback it awaits, and the array it iterates.
  \<open>p_array\<close> is \<open>None\<close> while that array is still the one \<^verbatim>\<open>this._queue\<close> refers to (so
  that a \<^verbatim>\<open>push\<close> by \<^verbatim>\<open>runAt\<close> is seen by the loop), and \<open>Some xs\<close> once
  \<^verbatim>\<open>this._queue\<close> has been assigned another array: nothing writes to the old one then.
\<close>

record poll =
  p_now :: int
  p_index :: nat
  p_array :: "IQueue list option"

text \<open>
  What the methods of a module read and write: the module's own fields, the broker
  singleton, the host's timers, the suspended executions of \<^verbatim>\<open>_checkQueue\<close>, and what an
  observer has seen so far.
\<close>

record world =
  this :: Automation
  broker :: API
  host :: Node
  running :: "poll list"
  observed :: trace

subsection \<open>Arrays\<close>

text \<open>
  \<open>js_nth\<close> is \<^verbatim>\<open>xs[i]\<close> (\<open>None\<close> is \<^verbatim>\<open>undefined\<close>), \<open>indexOf\<close> is \<^verbatim>\<open>xs.indexOf(x)\<close> and
  \<open>splice1 xs start\<close> is \<open>xs\<close> after \<^verbatim>\<open>xs.splice(start, 1)\<close>: a negative \<open>start\<close> counts
  from the end of the array.
\<close>

definition js_nth :: "'a list \<Rightarrow> nat \<Rightarrow> 'a option" where
  "js_nth xs i = (if i < length xs then Some (xs ! i) else None)"

fun indexOf :: "'a list \<Rightarrow> 'a \<Rightarrow> int" where
  "indexOf [] x = - 1"
| "indexOf (y # ys) x =
     (if y = x then 0 else (let r = indexOf ys x in if r < 0 then - 1 else r + 1))"

definition splice1 :: "'a list \<Rightarrow> int \<Rightarrow> 'a list" where
  "splice1 xs start =
     (let len = int (length xs);
          from = (if start < 0 then max (len + start) 0 else min start len)
      in take (nat from) xs @ drop (nat from + 1) xs)"

subsection \<open>Timers\<close>

definition setTimeout :: "world \<Rightarrow> nat \<times> world" where
  "setTimeout w =
     (let i = next_handle (host w)
      in (i, w\<lparr>host := (host w)\<lparr>active := insert i (active (host w)), next_handle := Suc i\<rparr>,
               this := (this w)\<lparr>timeouts := timeouts (this w) @ [i]\<rparr>\<rparr>))"

text \<open>
  The argument is \<open>None\<close> when \<^verbatim>\<open>destroy\<close> passes \<^verbatim>\<open>this._timeouts[i]\<close> for an index that
  holds nothing: the host's \<^verbatim>\<open>clearTimeout(undefined)\<close> does nothing, and
  \<^verbatim>\<open>indexOf(undefined)\<close> is -1.
\<close>

definition clearTimeout :: "world \<Rightarrow> nat option \<Rightarrow> world" where
  "clearTimeout w i =
     (let host' = (case i of None \<Rightarrow> host w
                   | Some h \<Rightarrow> (host w)\<lparr>active := active (host w) - {h}\<rparr>);
          idx = (case i of None \<Rightarrow> - 1 | Some h \<Rightarrow> indexOf (timeouts (this w)) h)
      in w\<lparr>host := host', this := (this w)\<lparr>timeouts := splice1 (timeouts (this w)) idx\<rparr>\<rparr>)"

definition setInterval :: "world \<Rightarrow> nat \<times> world" where
  "setInterval w =
     (let i = next_handle (host w)
      in (i, w\<lparr>host := (host w)\<lparr>active := insert i (active (host w)), next_handle := Suc i\<rparr>,
               this := (this w)\<lparr>intervals := intervals (this w) @ [i]\<rparr>\<rparr>))"

definition clearInterval :: "world \<Rightarrow> nat option \<Rightarrow> world" where
  "clearInterval w i =
     (let host' = (case i of None \<Rightarrow> host w
                   | Some h \<Rightarrow> (host w)\<lparr>active := active (host w) - {h}\<rparr>);
          idx = (case i of None \<Rightarrow> - 1 | Some h \<Rightarrow> indexOf (intervals (this w)) h)
      in w\<lparr>host := host', this := (this w)\<lparr>intervals := splice1 (intervals (this w)) idx\<rparr>\<rparr>)"

text \<open>
  The constructor: a module of the broker \<open>api\<close> on the host \<open>node\<close>, built when the minute
  of the hour is \<open>minute\<close>. Its two \<^verbatim>\<open>setInterval\<close> calls start the pollers of the delayed
  tasks and of the per-minute callbacks.
\<close>

definition new_Automation :: "API \<Rightarrow> Node \<Rightarrow> nat \<Rightarrow> string \<Rightarrow> string \<Rightarrow> world" where
  "new_Automation api node minute ttl descr =
     (let w = \<lparr>this = \<lparr>timeouts = [], intervals = [], eachMinutes = [], lastMinute = minute,
                       mqttSubscriptions = [], stateSubscriptions = [],
                       automationSubscriptions = [], queue = [],
                       title = ttl, description = descr\<rparr>,
               broker = api, host = node, running = [], observed = []\<rparr>
      in snd (setInterval (snd (setInterval w))))"

subsection \<open>Subscriptions\<close>

definition onStateChange :: "world \<Rightarrow> string \<Rightarrow> IStateCallback \<Rightarrow> int \<Rightarrow> int \<Rightarrow> world" where
  "onStateChange w entityId callback rnd now =
     (case onState (broker w) entityId callback rnd now of
        (listener, api') \<Rightarrow>
          w\<lparr>broker := api',
            this := (this w)\<lparr>stateSubscriptions := stateSubscriptions (this w) @ [listener]\<rparr>\<rparr>)"

definition onAutomationTrigger :: "world \<Rightarrow> string \<Rightarrow> ITriggerCallback \<Rightarrow> int \<Rightarrow> int \<Rightarrow> world" where
  "onAutomationTrigger w entityId callback rnd now =
     (case onAutomation (broker w) entityId callback rnd now of
        (listener, api') \<Rightarrow>
          w\<lparr>broker := api',
            this := (this w)\<lparr>automationSubscriptions :=
                               automationSubscriptions (this w) @ [listener]\<rparr>\<rparr>)"

subsection \<open>Delayed tasks and per-minute callbacks\<close>

text \<open>
  \<open>assign_queue\<close> is the assignment \<^verbatim>\<open>this._queue = xs\<close> of a fresh array: the suspended
  executions of \<^verbatim>\<open>_checkQueue\<close> that iterate the array \<^verbatim>\<open>this._queue\<close> referred to
  keep that array.
\<close>

definition detach :: "IQueue list \<Rightarrow> poll \<Rightarrow> poll" where
  "detach old p = (case p_array p of None \<Rightarrow> p\<lparr>p_array := Some old\<rparr> | Some xs \<Rightarrow> p)"

definition assign_queue :: "world \<Rightarrow> IQueue list \<Rightarrow> world" where
  "assign_queue w xs =
     w\<lparr>this := (this w)\<lparr>queue := xs\<rparr>, running := map (detach (queue (this w))) (running w)\<rparr>"

definition runAt :: "world \<Rightarrow> int \<Rightarrow> (unit \<Rightarrow> js_error + unit) \<Rightarrow> int \<Rightarrow> int \<Rightarrow> task_id \<times> world" where
  "runAt w date callback now rnd =
     (let i = (now, rnd)
      in (i, w\<lparr>this := (this w)\<lparr>queue :=
                  queue (this w) @ [\<lparr>q_id = i, q_date = date, q_callback = callback\<rparr>]\<rparr>\<rparr>))"

definition clearRunAt :: "world \<Rightarrow> task_id \<Rightarrow> world" where
  "clearRunAt w i = assign_queue w (filter (\<lambda>q. q_id q \<noteq> i) (queue (this w)))"

definition setEachMinute :: "world \<Rightarrow> (unit \<Rightarrow> js_error + unit) \<Rightarrow> int \<Rightarrow> int \<Rightarrow> task_id \<times> world" where
  "setEachMinute w callback now rnd =
     (let i = (now, rnd)
      in (i, w\<lparr>this := (this w)\<lparr>eachMinutes :=
                  eachMinutes (this w) @ [\<lparr>em_id = i, em_callback = callback\<rparr>]\<rparr>\<rparr>))"

definition clearEachMinute :: "world \<Rightarrow> task_id \<Rightarrow> world" where
  "clearEachMinute w i =
     w\<lparr>this := (this w)\<lparr>eachMinutes := filter (\<lambda>item. em_id item \<noteq> i) (eachMinutes (this w))\<rparr>\<rparr>"

text \<open>
  \<^verbatim>\<open>_checkQueue\<close> is asynchronous: it runs until the \<^verbatim>\<open>await\<close> on the callback of the
  first element that is due, and is resumed, when that promise settles, to run until the
  next \<^verbatim>\<open>await\<close> or until the loop ends; only then does it assign the filtered array.
  \<open>scan_queue now xs i tr\<close> runs the loop over the elements \<open>xs\<close>, the first of which has
  index \<open>i\<close>: it yields \<open>Some j\<close> when it stops at the \<^verbatim>\<open>await\<close> for the element of index
  \<open>j\<close>, and \<open>None\<close> at the end of the array. A callback that throws when called is caught
  and logged at once, and the loop goes on without suspending; a callback that returns
  suspends the execution, since \<^verbatim>\<open>await\<close> yields even for a value that is not a promise.
\<close>

fun scan_queue :: "int \<Rightarrow> IQueue list \<Rightarrow> nat \<Rightarrow> trace \<Rightarrow> nat option \<times> trace" where
  "scan_queue now [] i tr = (None, tr)"
| "scan_queue now (q # qs) i tr =
     (if q_date q \<le> now
      then (case q_callback q () of
              Inl e \<Rightarrow> scan_queue now qs (Suc i) (tr @ [TaskCall (q_id q), LogError e])
            | Inr u \<Rightarrow> (Some i, tr @ [TaskCall (q_id q)]))
      else scan_queue now qs (Suc i) tr)"

definition poll_array :: "world \<Rightarrow> poll \<Rightarrow> IQueue list" where
  "poll_array w p = (case p_array p of None \<Rightarrow> queue (this w) | Some xs \<Rightarrow> xs)"

definition checkQueue_continue :: "world \<Rightarrow> poll \<Rightarrow> world" where
  "checkQueue_continue w p =
     (case scan_queue (p_now p) (drop (p_index p) (poll_array w p)) (p_index p) (observed w) of
        (Some j, tr) \<Rightarrow> w\<lparr>running := running w @ [p\<lparr>p_index := j\<rparr>], observed := tr\<rparr>
      | (None, tr) \<Rightarrow>
          assign_queue (w\<lparr>observed := tr\<rparr>) (filter (\<lambda>q. p_now p < q_date q) (queue (this w))))"

text \<open>
  \<open>checkQueue w now\<close> is the call the first poller makes when the clock reads \<open>now\<close>.
  \<open>checkQueue_resume w k settled\<close> resumes the \<open>k\<close>-th suspended execution: the promise it
  awaits has resolved (\<open>None\<close>) or rejected with \<open>e\<close> (\<open>Some e\<close>, caught and logged).
\<close>

definition checkQueue :: "world \<Rightarrow> int \<Rightarrow> world" where
  "checkQueue w now = checkQueue_continue w \<lparr>p_now = now, p_index = 0, p_array = None\<rparr>"

definition checkQueue_resume :: "world \<Rightarrow> nat \<Rightarrow> js_error option \<Rightarrow> world" where
  "checkQueue_resume w k settled =
     (case js_nth (running w) k of
        None \<Rightarrow> w
      | Some p \<Rightarrow>
          checkQueue_continue
            (w\<lparr>running := take k (running w) @ drop (Suc k) (running w),
               observed := (case settled of None \<Rightarrow> observed w
                            | Some e \<Rightarrow> observed w @ [LogError e])\<rparr>)
            (p\<lparr>p_index := Suc (p_index p)\<rparr>))"

text \<open>
  A poll that nothing overlaps: after the call of \<^verbatim>\<open>_checkQueue\<close>, the suspended
  execution is resumed, its promise resolved, until none is left. \<open>fuel\<close> bounds the
  number of resumptions; the length of the queue is enough. \<open>task_entries now xs\<close> is
  what such a poll leaves in the trace for the elements \<open>xs\<close>.
\<close>

fun checkQueue_complete :: "nat \<Rightarrow> world \<Rightarrow> world" where
  "checkQueue_complete 0 w = w"
| "checkQueue_complete (Suc fuel) w =
     (case running w of [] \<Rightarrow> w | p # ps \<Rightarrow> checkQueue_complete fuel (checkQueue_resume w 0 None))"

definition task_entries :: "int \<Rightarrow> IQueue list \<Rightarrow> trace" where
  "task_entries now xs =
     concat (map (\<lambda>q. case q_callback q () of
                         Inl e \<Rightarrow> [TaskCall (q_id q), LogError e]
                       | Inr u \<Rightarrow> [TaskCall (q_id q)])
                 (filter (\<lambda>q. q_date q \<le> now) xs))"

text \<open>
  \<^verbatim>\<open>_checkEachMinute\<close> when the minute of the hour is \<open>current\<close>. A callback that throws
  when called leaves the loop; the rejection of a promise it returns is logged later and is
  not part of this step.
\<close>

definition call_each_minute :: "IEachMinute \<Rightarrow> world stmt" where
  "call_each_minute item w =
     (case em_callback item () of
        Inl e \<Rightarrow> (Some e, w\<lparr>observed := observed w @ [MinuteCall (em_id item)]\<rparr>)
      | Inr u \<Rightarrow> (None, w\<lparr>observed := observed w @ [MinuteCall (em_id item)]\<rparr>))"

definition checkEachMinute :: "nat \<Rightarrow> world stmt" where
  "checkEachMinute current w =
     (if current = lastMinute (this w) then (None, w)
      else (let w' = w\<lparr>this := (this w)\<lparr>lastMinute := current\<rparr>\<rparr>
            in for_of (eachMinutes (this w')) call_each_minute w'))"

subsection \<open>destroy\<close>

text \<open>
  The three counting loops \<^verbatim>\<open>for (let i = xs.length - 1; i >= 0; i--)\<close>: the first
  argument is \<open>i + 1\<close>, and each round reads the array as it is then. Reading \<^verbatim>\<open>.id\<close> of
  an element that is not there throws a \<^verbatim>\<open>TypeError\<close>.
\<close>

fun destroy_timeouts :: "nat \<Rightarrow> world \<Rightarrow> world" where
  "destroy_timeouts 0 w = w"
| "destroy_timeouts (Suc i) w = destroy_timeouts i (clearTimeout w (js_nth (timeouts (this w)) i))"

fun destroy_intervals :: "nat \<Rightarrow> world \<Rightarrow> world" where
  "destroy_intervals 0 w = w"
| "destroy_intervals (Suc i) w =
     destroy_intervals i (clearInterval w (js_nth (intervals (this w)) i))"

fun destroy_queue :: "nat \<Rightarrow> world stmt" where
  "destroy_queue 0 w = (None, w)"
| "destroy_queue (Suc i) w =
     (case js_nth (queue (this w)) i of
        None \<Rightarrow> (Some (TypeError ''Cannot read properties of undefined (reading id)''), w)
      | Some q \<Rightarrow> destroy_queue i (clearRunAt w (q_id q)))"

text \<open>
  The mqtt client is not among the sources: \<open>unsubscribe topic i\<close> is whether
  \<^verbatim>\<open>this._mqtt.unsubscribe(topic, i)\<close> throws, and the call is observed.
\<close>

definition mqtt_unsubscribe :: "(string \<Rightarrow> nat \<Rightarrow> js_error option) \<Rightarrow> string \<times> nat \<Rightarrow> world stmt" where
  "mqtt_unsubscribe unsubscribe sub w =
     (unsubscribe (fst sub) (snd sub),
      w\<lparr>observed := observed w @ [Unsubscribed (fst sub) (snd sub)]\<rparr>)"

definition log_error :: "js_error \<Rightarrow> world stmt" where
  "log_error e w = (None, w\<lparr>observed := observed w @ [LogError e]\<rparr>)"

definition destroy :: "(string \<Rightarrow> nat \<Rightarrow> js_error option) \<Rightarrow> world stmt" where
  "destroy unsubscribe =
     seq (\<lambda>w. (None, destroy_timeouts (length (timeouts (this w))) w))
    (seq (\<lambda>w. (None, destroy_intervals (length (intervals (this w))) w))
    (seq (\<lambda>w. destroy_queue (length (queue (this w))) w)
    (seq (\<lambda>w. for_of (mqttSubscriptions (this w)) (mqtt_unsubscribe unsubscribe) w)
    (seq (\<lambda>w. (None, w\<lparr>this := (this w)\<lparr>mqttSubscriptions := []\<rparr>\<rparr>))
    (seq (\<lambda>w. for_of (stateSubscriptions (this w))
                 (\<lambda>sub. try_catch
                    (\<lambda>w. (None, w\<lparr>broker := clearOnState (broker w) (li_entityId sub) (li_id sub)\<rparr>))
                    log_error) w)
    (seq (\<lambda>w. for_of (automationSubscriptions (this w))
                 (\<lambda>sub. try_catch
                    (\<lambda>w. (None, w\<lparr>broker :=
                                    clearOnAutomation (broker w) (li_entityId sub) (li_id sub)\<rparr>))
                    log_error) w)
         (\<lambda>w. (None, w\<lparr>this := (this w)\<lparr>eachMinutes := []\<rparr>\<rparr>))))))))"

section \<open>Reading a trace\<close>

text \<open>The entries of a trace that are invocations of a callback.\<close>

fun is_call :: "trace_entry \<Rightarrow> bool" where
  "is_call (LogError e) = False"
| "is_call (Unsubscribed t i) = False"
| "is_call x = True"

text \<open>The ids of the listeners that a registry holds for an entity.\<close>

definition state_listener_ids :: "API \<Rightarrow> string \<Rightarrow> int set" where
  "state_listener_ids api e =
     (case stateListeners api e of None \<Rightarrow> {} | Some ls \<Rightarrow> set (map sl_id ls))"

definition automation_listener_ids :: "API \<Rightarrow> string \<Rightarrow> int set" where
  "automation_listener_ids api e =
     (case automationListeners api e of None \<Rightarrow> {} | Some ls \<Rightarrow> set (map al_id ls))"

section \<open>Example inputs\<close>

text \<open>
  A broker that has seen two entities and holds two state listeners for the kitchen light
  and two trigger listeners for one automation; in each pair the listener registered first
  throws when it is called.
\<close>

definition ex_kitchen_off :: IState where
  "ex_kitchen_off =
     \<lparr>entity_id = ''light.kitchen'', state = ''off'',
      attributes = [(''friendly_name'', JStr ''Kitchen'')],
      last_changed = TimeText ''2021-03-01T10:00:00Z'',
      last_updated = TimeText ''2021-03-01T10:00:00Z''\<rparr>"

definition ex_kitchen_on :: IState where
  "ex_kitchen_on =
     \<lparr>entity_id = ''light.kitchen'', state = ''on'',
      attributes = [(''friendly_name'', JStr ''Kitchen''), (''brightness'', JNum 150)],
      last_changed = TimeText ''2021-03-01T10:05:00Z'',
      last_updated = TimeText ''2021-03-01T10:05:00Z''\<rparr>"

definition ex_fan :: IState where
  "ex_fan =
     \<lparr>entity_id = ''switch.fan'', state = ''on'', attributes = [],
      last_changed = TimeText ''2021-03-01T09:00:00Z'',
      last_updated = TimeText ''2021-03-01T09:00:00Z''\<rparr>"

definition ex_returns :: IStateCallback where
  "ex_returns c n old = Inr NoPromise"

definition ex_throws :: IStateCallback where
  "ex_throws c n old = Inl (Thrown ''boom'')"

definition ex_trigger_returns :: ITriggerCallback where
  "ex_trigger_returns c = Inr NoPromise"

definition ex_trigger_throws :: ITriggerCallback where
  "ex_trigger_throws c = Inl (Thrown ''bang'')"

definition ex_empty :: API where
  "ex_empty = \<lparr>states = Map.empty, stateListeners = Map.empty, automationListeners = Map.empty\<rparr>"

definition ex_api :: API where
  "ex_api =
     snd (onAutomation
       (snd (onAutomation
         (snd (onState
           (snd (onState (ex_empty\<lparr>states := [''light.kitchen'' \<mapsto> ex_kitchen_off,
                                               ''switch.fan'' \<mapsto> ex_fan]\<rparr>)
                   ''light.kitchen'' ex_throws 17 1000))
           ''light.kitchen'' ex_returns 4 2000))
         ''automation.motion'' ex_trigger_throws 5 3000))
       ''automation.motion'' ex_trigger_returns 6 4000)"

definition ex_event :: state_changed where
  "ex_event = \<lparr>sc_entity_id = ''light.kitchen'', new_state = Some ex_kitchen_on,
               old_state = Some ex_kitchen_off\<rparr>"

definition ex_null_event :: state_changed where
  "ex_null_event = \<lparr>sc_entity_id = ''light.kitchen'', new_state = None,
               old_state = Some ex_kitchen_off\<rparr>"

definition ex_trigger :: automation_triggered where
  "ex_trigger = \<lparr>at_name = ''Motion'', at_entity_id = ''automation.motion''\<rparr>"

text \<open>
  A broker whose first listener of each kind is an \<^verbatim>\<open>async\<close> function whose body throws:
  the call returns a promise, which rejects.
\<close>

definition ex_async :: IStateCallback where
  "ex_async c n old = Inr (Promise (Some (Thrown ''late'')))"

definition ex_trigger_async :: ITriggerCallback where
  "ex_trigger_async c = Inr (Promise (Some (Thrown ''later'')))"

definition ex_async_api :: API where
  "ex_async_api =
     snd (onAutomation
       (snd (onAutomation
         (snd (onState
           (snd (onState (ex_empty\<lparr>states := [''light.kitchen'' \<mapsto> ex_kitchen_off]\<rparr>)
                   ''light.kitchen'' ex_async 1 6000))
           ''light.kitchen'' ex_returns 2 6000))
         ''automation.motion'' ex_trigger_async 1 7000))
       ''automation.motion'' ex_trigger_returns 2 7000)"

definition ex_conn :: "service_request \<Rightarrow> js_error + json" where
  "ex_conn request = Inr JNull"

definition ex_data :: "string \<rightharpoonup> json" where
  "ex_data = [''entity_id'' \<mapsto> JStr ''light.kitchen'', ''brightness'' \<mapsto> JNum 100]"

text \<open>
  A module on that broker: the two pollers its constructor starts (handles 1 and 2), two
  timeouts (3 and 4), one state and one trigger subscription, two delayed tasks and one
  per-minute callback. The second module has one more delayed task, whose id is the id of
  the first.
\<close>

definition ex_node :: Node where
  "ex_node = \<lparr>active = {}, next_handle = 1\<rparr>"

definition ex_unsubscribe :: "string \<Rightarrow> nat \<Rightarrow> js_error option" where
  "ex_unsubscribe topic i = None"

definition ex_task :: "unit \<Rightarrow> js_error + unit" where
  "ex_task u = Inr ()"

definition ex_module :: world where
  "ex_module =
     snd (setEachMinute
       (snd (runAt
         (snd (runAt
           (onAutomationTrigger
             (onStateChange
               (snd (setTimeout (snd (setTimeout
                  (new_Automation ex_api ex_node 10 ''Hallway Light'' ''Example'')))))
               ''light.kitchen'' ex_returns 7 5000)
             ''automation.motion'' ex_trigger_returns 8 5000)
           9000 ex_task 5000 11))
         9500 ex_task 5000 12))
       ex_task 5000 3)"

definition ex_colliding :: world where
  "ex_colliding = snd (runAt ex_module 9900 ex_task 5000 11)"

section \<open>Properties of the broker\<close>

subsection \<open>The listener loops\<close>

lemma for_of_state_listeners:
  "for_of ls (\<lambda>l. try_catch (call_state_listener c n old l) logger_error) tr =
     (None, tr @ concat (map (\<lambda>l. case sl_callback l c n old of
                                    Inl e \<Rightarrow> [StateCall (sl_id l) c n old, LogError e]
                                  | Inr u \<Rightarrow> [StateCall (sl_id l) c n old]) ls))"
  by (induction ls arbitrary: tr)
     (auto simp: call_state_listener_def logger_error_def try_catch_def split: sum.splits)

lemma for_of_automation_listeners:
  "for_of ls (\<lambda>l. try_catch (call_automation_listener c l) logger_error) tr =
     (None, tr @ concat (map (\<lambda>l. case al_callback l c of
                                    Inl e \<Rightarrow> [TriggerCall (al_id l) c, LogError e]
                                  | Inr u \<Rightarrow> [TriggerCall (al_id l) c]) ls))"
  by (induction ls arbitrary: tr)
     (auto simp: call_automation_listener_def logger_error_def try_catch_def split: sum.splits)

lemma calls_state_entries:
  "filter is_call (concat (map (\<lambda>l. case sl_callback l c n old of
                                    Inl e \<Rightarrow> [StateCall (sl_id l) c n old, LogError e]
                                  | Inr u \<Rightarrow> [StateCall (sl_id l) c n old]) ls))
   = map (\<lambda>l. StateCall (sl_id l) c n old) ls"
  by (induction ls) (auto split: sum.splits)

lemma ex_api_listeners:
  "stateListeners ex_api ''light.kitchen'' =
     Some [\<lparr>sl_id = 1017, sl_callback = ex_throws\<rparr>, \<lparr>sl_id = 2004, sl_callback = ex_returns\<rparr>]"
  "automationListeners ex_api ''automation.motion'' =
     Some [\<lparr>al_id = 3005, al_callback = ex_trigger_throws\<rparr>,
           \<lparr>al_id = 4006, al_callback = ex_trigger_returns\<rparr>]"
  "states ex_api = [''light.kitchen'' \<mapsto> ex_kitchen_off, ''switch.fan'' \<mapsto> ex_fan]"
  by (simp_all add: ex_api_def ex_empty_def onState_def onAutomation_def Let_def)

subsection \<open>Dispatch of a state change\<close>

text \<open>
  C1. Let a \<^verbatim>\<open>state_changed\<close> event carry the new state \<open>ns\<close>, and let the entity of
  \<open>ns\<close> have the non-empty list \<open>ls\<close> of state listeners. The handler returns normally. It
  first stores \<open>ns\<close> in the cache, so that \<open>getState\<close> for the entity yields \<open>ns\<close> in
  the broker every listener sees; the invocations it makes are exactly one per listener of
  \<open>ls\<close>, in the order of \<open>ls\<close>, each with that updated cache, \<open>ns\<close> and the old state of
  the event. The order of \<open>ls\<close> is the order of registration: \<open>onState\<close> puts a new
  listener at the end.
\<close>

theorem state_changed_dispatch:
  assumes "new_state msg = Some ns"
    and "stateListeners api (entity_id ns) = Some ls"
    and "ls \<noteq> []"
  shows "\<exists>tr. API_onStateChange api msg =
                 (None, api\<lparr>states := (states api)(entity_id ns \<mapsto> ns)\<rparr>, tr)
           \<and> getState (api\<lparr>states := (states api)(entity_id ns \<mapsto> ns)\<rparr>) (entity_id ns) = Inr ns
           \<and> filter is_call tr =
               map (\<lambda>l. StateCall (sl_id l) ((states api)(entity_id ns \<mapsto> ns)) ns (old_state msg)) ls
           \<and> (\<forall>cb rnd now.
                 stateListeners (snd (onState api (entity_id ns) cb rnd now)) (entity_id ns) =
                   Some (ls @ [\<lparr>sl_id = rnd + now, sl_callback = cb\<rparr>]))"
  using assms
  by (simp add: API_onStateChange_def Let_def for_of_state_listeners calls_state_entries
      getState_def onState_def)

theorem state_changed_dispatch_witness:
  "new_state ex_event = Some ex_kitchen_on
   \<and> stateListeners ex_api (entity_id ex_kitchen_on) =
       Some [\<lparr>sl_id = 1017, sl_callback = ex_throws\<rparr>, \<lparr>sl_id = 2004, sl_callback = ex_returns\<rparr>]
   \<and> (\<exists>tr. API_onStateChange ex_api ex_event =
             (None, ex_api\<lparr>states := (states ex_api)(''light.kitchen'' \<mapsto> ex_kitchen_on)\<rparr>, tr)
         \<and> getState (ex_api\<lparr>states := (states ex_api)(''light.kitchen'' \<mapsto> ex_kitchen_on)\<rparr>)
               ''light.kitchen'' = Inr ex_kitchen_on
         \<and> filter is_call tr =
             [StateCall 1017 ((states ex_api)(''light.kitchen'' \<mapsto> ex_kitchen_on))
                ex_kitchen_on (Some ex_kitchen_off),
              StateCall 2004 ((states ex_api)(''light.kitchen'' \<mapsto> ex_kitchen_on))
                ex_kitchen_on (Some ex_kitchen_off)])"
proof -
  have ns: "new_state ex_event = Some ex_kitchen_on"
    by (simp add: ex_event_def)
  have e: "entity_id ex_kitchen_on = ''light.kitchen''"
    by (simp add: ex_kitchen_on_def)
  have ls: "stateListeners ex_api (entity_id ex_kitchen_on) =
       Some [\<lparr>sl_id = 1017, sl_callback = ex_throws\<rparr>, \<lparr>sl_id = 2004, sl_callback = ex_returns\<rparr>]"
    by (simp add: e ex_api_listeners)
  have old: "old_state ex_event = Some ex_kitchen_off"
    by (simp add: ex_event_def)
  from state_changed_dispatch [OF ns ls] show ?thesis
    using ns ls by (auto simp: e old)
qed

text \<open>
  Exceptions that a listener throws when it is called. Whatever the callbacks do, both
  handlers return normally: no exception reaches the connection. For a state change whose
  entity has the listeners \<open>ls\<close>, and for an automation trigger whose entity has the
  listeners \<open>als\<close>, every listener is invoked, in order, whether or not another one
  threw; a listener that throws \<open>e\<close> is followed by the report \<open>LogError e\<close>; and the
  broker that is left is the one with the cache updated (state change) or the one before
  (automation trigger).
\<close>

lemma listener_exceptions_isolated:
  "(new_state msg = Some ns \<and> stateListeners api (entity_id ns) = Some ls \<longrightarrow>
      API_onStateChange api msg =
        (None, api\<lparr>states := (states api)(entity_id ns \<mapsto> ns)\<rparr>,
         concat (map (\<lambda>l. case sl_callback l ((states api)(entity_id ns \<mapsto> ns)) ns
                                  (old_state msg) of
                             Inl e \<Rightarrow>
                               [StateCall (sl_id l) ((states api)(entity_id ns \<mapsto> ns)) ns
                                  (old_state msg), LogError e]
                           | Inr u \<Rightarrow>
                               [StateCall (sl_id l) ((states api)(entity_id ns \<mapsto> ns)) ns
                                  (old_state msg)]) ls)))
   \<and> (automationListeners api (at_entity_id tmsg) = Some als \<longrightarrow>
        API_onAutomationTrigger api tmsg =
          (None, api,
           concat (map (\<lambda>l. case al_callback l (states api) of
                               Inl e \<Rightarrow> [TriggerCall (al_id l) (states api), LogError e]
                             | Inr u \<Rightarrow> [TriggerCall (al_id l) (states api)]) als)))
   \<and> (\<forall>a m. fst (API_onStateChange a m) = None)
   \<and> (\<forall>a m. fst (API_onAutomationTrigger a m) = None)"
proof -
  have "fst (API_onStateChange a m) = None" for a m
    by (simp add: API_onStateChange_def Let_def for_of_state_listeners
        split: option.splits)
  moreover have "fst (API_onAutomationTrigger a m) = None" for a m
    by (simp add: API_onAutomationTrigger_def for_of_automation_listeners split: option.splits)
  ultimately show ?thesis
    by (simp add: API_onStateChange_def API_onAutomationTrigger_def Let_def
        for_of_state_listeners for_of_automation_listeners)
qed

lemma listener_exceptions_isolated_example:
  "new_state ex_event = Some ex_kitchen_on
   \<and> API_onStateChange ex_api ex_event =
       (None, ex_api\<lparr>states := (states ex_api)(''light.kitchen'' \<mapsto> ex_kitchen_on)\<rparr>,
        [StateCall 1017 ((states ex_api)(''light.kitchen'' \<mapsto> ex_kitchen_on))
           ex_kitchen_on (Some ex_kitchen_off),
         LogError (Thrown ''boom''),
         StateCall 2004 ((states ex_api)(''light.kitchen'' \<mapsto> ex_kitchen_on))
           ex_kitchen_on (Some ex_kitchen_off)])
   \<and> API_onAutomationTrigger ex_api ex_trigger =
       (None, ex_api,
        [TriggerCall 3005 (states ex_api), LogError (Thrown ''bang''),
         TriggerCall 4006 (states ex_api)])"
proof -
  have ns: "new_state ex_event = Some ex_kitchen_on"
    by (simp add: ex_event_def)
  have e: "entity_id ex_kitchen_on = ''light.kitchen''"
    by (simp add: ex_kitchen_on_def)
  have ls: "stateListeners ex_api (entity_id ex_kitchen_on) =
       Some [\<lparr>sl_id = 1017, sl_callback = ex_throws\<rparr>, \<lparr>sl_id = 2004, sl_callback = ex_returns\<rparr>]"
    by (simp add: e ex_api_listeners)
  have als: "automationListeners ex_api (at_entity_id ex_trigger) =
       Some [\<lparr>al_id = 3005, al_callback = ex_trigger_throws\<rparr>,
             \<lparr>al_id = 4006, al_callback = ex_trigger_returns\<rparr>]"
    by (simp add: ex_trigger_def ex_api_listeners)
  have old: "old_state ex_event = Some ex_kitchen_off"
    by (simp add: ex_event_def)
  from listener_exceptions_isolated [of ex_event ex_kitchen_on ex_api _ ex_trigger] ns ls als
  show ?thesis
    by (simp add: e old ex_throws_def ex_returns_def ex_trigger_throws_def
        ex_trigger_returns_def)
qed

lemma ex_async_api_listeners:
  "stateListeners ex_async_api ''light.kitchen'' =
     Some [\<lparr>sl_id = 6001, sl_callback = ex_async\<rparr>, \<lparr>sl_id = 6002, sl_callback = ex_returns\<rparr>]"
  "automationListeners ex_async_api ''automation.motion'' =
     Some [\<lparr>al_id = 7001, al_callback = ex_trigger_async\<rparr>,
           \<lparr>al_id = 7002, al_callback = ex_trigger_returns\<rparr>]"
  "states ex_async_api = [''light.kitchen'' \<mapsto> ex_kitchen_off]"
  by (simp_all add: ex_async_api_def ex_empty_def onState_def onAutomation_def Let_def)

text \<open>
  C7. The claim asks that an exception of any registered callback is caught where the
  event is dispatched, and reported. The two handlers call each listener inside a
  \<^verbatim>\<open>try\<close> but do not await what it returns, so this holds of a listener that throws when
  it is called and not of an \<^verbatim>\<open>async\<close> listener, whose exception is the rejection of the
  promise it returns. On the example broker the first state listener and the first trigger
  listener return promises that reject: both handlers return normally and invoke every
  listener, and nothing is reported, neither rejection being caught or logged.
\<close>

theorem async_listener_rejection_is_not_reported:
  "stateListeners ex_async_api ''light.kitchen'' =
     Some [\<lparr>sl_id = 6001, sl_callback = ex_async\<rparr>, \<lparr>sl_id = 6002, sl_callback = ex_returns\<rparr>]
   \<and> ex_async ((states ex_async_api)(''light.kitchen'' \<mapsto> ex_kitchen_on)) ex_kitchen_on
         (Some ex_kitchen_off) = Inr (Promise (Some (Thrown ''late'')))
   \<and> API_onStateChange ex_async_api ex_event =
       (None, ex_async_api\<lparr>states := (states ex_async_api)(''light.kitchen'' \<mapsto> ex_kitchen_on)\<rparr>,
        [StateCall 6001 ((states ex_async_api)(''light.kitchen'' \<mapsto> ex_kitchen_on))
           ex_kitchen_on (Some ex_kitchen_off),
         StateCall 6002 ((states ex_async_api)(''light.kitchen'' \<mapsto> ex_kitchen_on))
           ex_kitchen_on (Some ex_kitchen_off)])
   \<and> LogError (Thrown ''late'') \<notin> set (snd (snd (API_onStateChange ex_async_api ex_event)))
   \<and> automationListeners ex_async_api ''automation.motion'' =
       Some [\<lparr>al_id = 7001, al_callback = ex_trigger_async\<rparr>,
             \<lparr>al_id = 7002, al_callback = ex_trigger_returns\<rparr>]
   \<and> ex_trigger_async (states ex_async_api) = Inr (Promise (Some (Thrown ''later'')))
   \<and> API_onAutomationTrigger ex_async_api ex_trigger =
       (None, ex_async_api,
        [TriggerCall 7001 (states ex_async_api), TriggerCall 7002 (states ex_async_api)])
   \<and> LogError (Thrown ''later'') \<notin>
       set (snd (snd (API_onAutomationTrigger ex_async_api ex_trigger)))"
proof -
  have ns: "new_state ex_event = Some ex_kitchen_on"
    by (simp add: ex_event_def)
  have e: "entity_id ex_kitchen_on = ''light.kitchen''"
    by (simp add: ex_kitchen_on_def)
  have old: "old_state ex_event = Some ex_kitchen_off"
    by (simp add: ex_event_def)
  have s: "API_onStateChange ex_async_api ex_event =
       (None, ex_async_api\<lparr>states := (states ex_async_api)(''light.kitchen'' \<mapsto> ex_kitchen_on)\<rparr>,
        [StateCall 6001 ((states ex_async_api)(''light.kitchen'' \<mapsto> ex_kitchen_on))
           ex_kitchen_on (Some ex_kitchen_off),
         StateCall 6002 ((states ex_async_api)(''light.kitchen'' \<mapsto> ex_kitchen_on))
           ex_kitchen_on (Some ex_kitchen_off)])"
    by (simp add: API_onStateChange_def Let_def ns e old for_of_state_listeners
        ex_async_api_listeners(1) ex_async_def ex_returns_def)
  have t: "API_onAutomationTrigger ex_async_api ex_trigger =
       (None, ex_async_api,
        [TriggerCall 7001 (states ex_async_api), TriggerCall 7002 (states ex_async_api)])"
    by (simp add: API_onAutomationTrigger_def ex_trigger_def for_of_automation_listeners
        ex_async_api_listeners(2) ex_trigger_async_def ex_trigger_returns_def)
  show ?thesis
    by (simp add: s t ex_async_api_listeners(1,2) ex_async_def ex_trigger_async_def)
qed

text \<open>
  C8. A \<^verbatim>\<open>state_changed\<close> event whose new state is \<^verbatim>\<open>null\<close> leaves the broker as it
  was, the cache of every entity included, and invokes nothing.
\<close>

theorem null_new_state_ignored:
  assumes "new_state msg = None"
  shows "API_onStateChange api msg = (None, api, [])"
  using assms by (simp add: API_onStateChange_def)

theorem null_new_state_ignored_witness:
  "new_state ex_null_event = None
   \<and> API_onStateChange ex_api ex_null_event = (None, ex_api, [])"
proof -
  have n: "new_state ex_null_event = None"
    by (simp add: ex_null_event_def)
  from null_new_state_ignored [OF n] show ?thesis
    using n by simp
qed

subsection \<open>Reading the cache\<close>

text \<open>
  C9. \<open>getState\<close> is a function of the broker alone (it has no connection to fetch from).
  For an entity that is not in the cache it fails with the error
  \<^verbatim>\<open><entityId> state not available\<close>; for a cached entity it returns the cached state. An
  event for another entity does not make an entity known.
\<close>

theorem getState_not_found_or_cached:
  "(states api entityId = None \<longrightarrow>
      getState api entityId = Inl (Error (entityId @ '' state not available'')))
   \<and> (\<forall>s. states api entityId = Some s \<longrightarrow> getState api entityId = Inr s)
   \<and> (states api entityId = None \<and> (\<forall>ns. new_state msg = Some ns \<longrightarrow> entity_id ns \<noteq> entityId) \<longrightarrow>
        getState (fst (snd (API_onStateChange api msg))) entityId =
          Inl (Error (entityId @ '' state not available'')))"
  by (auto simp: getState_def API_onStateChange_def Let_def for_of_state_listeners
      split: option.splits)

theorem getState_not_found_or_cached_witness:
  "states ex_api ''light.attic'' = None
   \<and> getState ex_api ''light.attic'' = Inl (Error ''light.attic state not available'')
   \<and> states ex_api ''light.kitchen'' = Some ex_kitchen_off
   \<and> getState ex_api ''light.kitchen'' = Inr ex_kitchen_off
   \<and> getState (fst (snd (API_onStateChange ex_api ex_event))) ''light.attic'' =
       Inl (Error ''light.attic state not available'')"
proof -
  have a: "states ex_api ''light.attic'' = None"
    by (simp add: ex_api_listeners)
  have k: "states ex_api ''light.kitchen'' = Some ex_kitchen_off"
    by (simp add: ex_api_listeners)
  have ev: "\<forall>ns. new_state ex_event = Some ns \<longrightarrow> entity_id ns \<noteq> ''light.attic''"
    by (simp add: ex_event_def ex_kitchen_on_def)
  from getState_not_found_or_cached [of ex_api "''light.attic''" ex_event]
       getState_not_found_or_cached [of ex_api "''light.kitchen''" ex_event]
  show ?thesis
    using a k ev by simp
qed

subsection \<open>Synchronising the cache\<close>

lemma foldl_store:
  "foldl (\<lambda>m s. m(entity_id s \<mapsto> s)) m xs e =
     (case List.find (\<lambda>s. entity_id s = e) (rev xs) of Some s \<Rightarrow> Some s | None \<Rightarrow> m e)"
  by (induction xs rule: rev_induct) auto

lemma find_map_date_state:
  "List.find (\<lambda>s. entity_id s = e) (map date_state xs) =
     map_option date_state (List.find (\<lambda>s. entity_id s = e) xs)"
  by (induction xs) (auto simp: date_state_def)

text \<open>
  C3, as the code has it. If the fetch fails, \<^verbatim>\<open>_syncStates\<close> fails with the same error;
  if the fetch yields nothing the broker is unchanged. If it yields the list \<open>sts\<close>,
  \<^verbatim>\<open>_syncStates\<close> succeeds, and afterwards an entity that \<open>sts\<close> lists is cached with the
  state of its last element for that entity, the two timestamps turned into dates, while
  an entity that \<open>sts\<close> does not list keeps the entry, or the absence of one, that the cache
  had before: the fetched states are stored into the cache, which is not emptied first.
\<close>

theorem syncStates_merges_into_cache:
  "API_syncStates api (Inl err) = Inl err
   \<and> API_syncStates api (Inr None) = Inr api
   \<and> (\<exists>api'. API_syncStates api (Inr (Some sts)) = Inr api'
         \<and> (\<forall>e. states api' e =
                  (case List.find (\<lambda>s. entity_id s = e) (rev sts) of
                     Some s \<Rightarrow> Some (date_state s)
                   | None \<Rightarrow> states api e))
         \<and> stateListeners api' = stateListeners api
         \<and> automationListeners api' = automationListeners api)"
  by (simp add: API_syncStates_def foldl_store rev_map find_map_date_state
      split: option.splits)

theorem syncStates_merges_into_cache_witness:
  "API_syncStates ex_api (Inl (Error ''timeout'')) = Inl (Error ''timeout'')
   \<and> (\<exists>api'. API_syncStates ex_api (Inr (Some [ex_kitchen_off, ex_kitchen_on])) = Inr api'
         \<and> states api' ''light.kitchen'' = Some (date_state ex_kitchen_on)
         \<and> states api' ''switch.fan'' = Some ex_fan
         \<and> states api' ''light.attic'' = None)"
  using syncStates_merges_into_cache [of ex_api "Error ''timeout''" "[ex_kitchen_off, ex_kitchen_on]"]
  by (auto simp: ex_kitchen_on_def ex_kitchen_off_def ex_api_listeners)

text \<open>
  C3 as stated fails: after a successful synchronisation with a list that holds only the
  kitchen light, the fan, which the list does not mention, is still in the cache.
\<close>

theorem syncStates_replaces_cache_counterexample:
  "''switch.fan'' \<notin> set (map entity_id [ex_kitchen_on])
   \<and> (case API_syncStates ex_api (Inr (Some [ex_kitchen_on])) of
         Inl e \<Rightarrow> None
       | Inr api' \<Rightarrow> states api' ''switch.fan'') = Some ex_fan"
  by (simp add: API_syncStates_def ex_kitchen_on_def date_state_def ex_api_listeners)

subsection \<open>Calling a service\<close>

lemma callService_request:
  "fst (callService conn domain service entityId data) =
     \<lparr>req_domain = domain, req_service = service,
      req_options =
        (let base = [''entity_id'' \<mapsto> (case entityId of None \<Rightarrow> JNull | Some s \<Rightarrow> JStr s)];
             merged = (case data of None \<Rightarrow> base | Some d \<Rightarrow> base ++ d)
         in if entityId = None \<or> entityId = Some [] then merged(''entity_id'' := None)
            else merged)\<rparr>"
  unfolding callService_def Let_def by (simp split: sum.splits)

text \<open>
  C5, as the code has it. The request that is forwarded has the domain and the service of
  the call. For every key other than \<^verbatim>\<open>entity_id\<close>, its options hold exactly what the
  caller's data holds. The key \<^verbatim>\<open>entity_id\<close> is absent when the entity is \<^verbatim>\<open>null\<close> or
  the empty string, whatever the data holds; for any other entity it is present, with the
  value the data gives it if the data has that key and with the entity otherwise.
\<close>

theorem callService_forwarded_options:
  "req_domain (fst (callService conn domain service entityId data)) = domain
   \<and> req_service (fst (callService conn domain service entityId data)) = service
   \<and> (\<forall>k. k \<noteq> ''entity_id'' \<longrightarrow>
          req_options (fst (callService conn domain service entityId data)) k =
            (case data of None \<Rightarrow> None | Some d \<Rightarrow> d k))
   \<and> (entityId = None \<or> entityId = Some [] \<longrightarrow>
          req_options (fst (callService conn domain service entityId data)) ''entity_id'' = None)
   \<and> (\<forall>s. entityId = Some s \<and> s \<noteq> [] \<longrightarrow>
          req_options (fst (callService conn domain service entityId data)) ''entity_id'' =
            (case data of
               None \<Rightarrow> Some (JStr s)
             | Some d \<Rightarrow> (case d ''entity_id'' of None \<Rightarrow> Some (JStr s) | Some v \<Rightarrow> Some v)))"
proof -
  define ek where "ek = ''entity_id''"
  show ?thesis
    unfolding callService_request Let_def ek_def [symmetric]
    by (cases data) (auto simp: map_add_def split: option.splits)
qed

theorem callService_forwarded_options_witness:
  "req_options (fst (callService ex_conn ''light'' ''turn_on'' None (Some [''brightness'' \<mapsto> JNum 100])))
     ''brightness'' = Some (JNum 100)
   \<and> req_options (fst (callService ex_conn ''light'' ''turn_on'' None (Some [''brightness'' \<mapsto> JNum 100])))
     ''entity_id'' = None
   \<and> req_options (fst (callService ex_conn ''light'' ''turn_on'' (Some ''light.hall'')
        (Some [''brightness'' \<mapsto> JNum 100]))) ''entity_id'' = Some (JStr ''light.hall'')"
  using callService_forwarded_options
          [of ex_conn "''light''" "''turn_on''" None "Some [''brightness'' \<mapsto> JNum 100]"]
        callService_forwarded_options
          [of ex_conn "''light''" "''turn_on''" "Some ''light.hall''" "Some [''brightness'' \<mapsto> JNum 100]"]
  by simp

text \<open>
  C5 as stated fails: with no entity given, a key \<^verbatim>\<open>entity_id\<close> of the caller's data is
  not in the forwarded options, so the options do not contain every key of the data.
\<close>

theorem callService_every_data_key_counterexample:
  "ex_data ''entity_id'' = Some (JStr ''light.kitchen'')
   \<and> req_options (fst (callService ex_conn ''light'' ''turn_on'' None (Some ex_data)))
       ''entity_id'' = None"
  by (simp add: callService_def ex_data_def ex_conn_def Let_def)

subsection \<open>Subscription ids\<close>

text \<open>
  C2, as the code has it. The id of a subscription, in either registry, is the sum of the
  random draw and of the clock reading at the call. So two subscriptions have the same id
  exactly when these sums are equal; they differ when the draws are in range and the clock
  readings are at least 10000 ms apart, and when the clock readings are equal and the
  draws differ.
\<close>

theorem subscription_id_is_draw_plus_clock:
  assumes "sub \<in> {fst (onState api e cb rnd now), fst (onAutomation api e tcb rnd now)}"
    and "sub' \<in> {fst (onState api' e' cb' rnd' now'), fst (onAutomation api' e' tcb' rnd' now')}"
  shows "li_id sub = rnd + now \<and> li_id sub' = rnd' + now'
         \<and> (li_id sub = li_id sub' \<longleftrightarrow> rnd + now = rnd' + now')
         \<and> (0 \<le> rnd \<and> rnd < 10000 \<and> 0 \<le> rnd' \<and> rnd' < 10000 \<and> now + 10000 \<le> now' \<longrightarrow>
              li_id sub \<noteq> li_id sub')
         \<and> (now = now' \<and> rnd \<noteq> rnd' \<longrightarrow> li_id sub \<noteq> li_id sub')"
proof -
  have "li_id sub = rnd + now"
    using assms(1) by (auto simp: onState_def onAutomation_def Let_def split: option.splits)
  moreover have "li_id sub' = rnd' + now'"
    using assms(2) by (auto simp: onState_def onAutomation_def Let_def split: option.splits)
  ultimately show ?thesis
    by simp
qed

theorem subscription_id_is_draw_plus_clock_witness:
  "li_id (fst (onState ex_empty ''light.kitchen'' ex_returns 9999 1000)) = 10999
   \<and> li_id (fst (onState ex_empty ''light.kitchen'' ex_returns 9999 1000)) \<noteq>
       li_id (fst (onAutomation ex_api ''automation.motion'' ex_trigger_returns 0 11000))"
proof -
  have 1: "fst (onState ex_empty ''light.kitchen'' ex_returns 9999 1000)
           \<in> {fst (onState ex_empty ''light.kitchen'' ex_returns 9999 1000),
               fst (onAutomation ex_empty ''light.kitchen'' ex_trigger_returns 9999 1000)}"
    by simp
  have 2: "fst (onAutomation ex_api ''automation.motion'' ex_trigger_returns 0 11000)
           \<in> {fst (onState ex_api ''automation.motion'' ex_returns 0 11000),
               fst (onAutomation ex_api ''automation.motion'' ex_trigger_returns 0 11000)}"
    by simp
  from subscription_id_is_draw_plus_clock [OF 1 2] show ?thesis
    by simp
qed

text \<open>
  C2 as stated fails: a state subscription and an automation subscription made one
  millisecond apart, and two state subscriptions for one entity made in the same
  millisecond, are all registered under the id 1042.
\<close>

theorem subscription_ids_unique_counterexample:
  "li_id (fst (onState ex_empty ''light.kitchen'' ex_returns 42 1000)) =
     li_id (fst (onAutomation (snd (onState ex_empty ''light.kitchen'' ex_returns 42 1000))
                   ''automation.motion'' ex_trigger_returns 41 1001))
   \<and> stateListeners
        (snd (onAutomation (snd (onState ex_empty ''light.kitchen'' ex_returns 42 1000))
                ''automation.motion'' ex_trigger_returns 41 1001)) ''light.kitchen'' =
       Some [\<lparr>sl_id = 1042, sl_callback = ex_returns\<rparr>]
   \<and> automationListeners
        (snd (onAutomation (snd (onState ex_empty ''light.kitchen'' ex_returns 42 1000))
                ''automation.motion'' ex_trigger_returns 41 1001)) ''automation.motion'' =
       Some [\<lparr>al_id = 1042, al_callback = ex_trigger_returns\<rparr>]
   \<and> stateListeners
        (snd (onState (snd (onState ex_empty ''light.kitchen'' ex_returns 42 1000))
                ''light.kitchen'' ex_throws 42 1000)) ''light.kitchen'' =
       Some [\<lparr>sl_id = 1042, sl_callback = ex_returns\<rparr>, \<lparr>sl_id = 1042, sl_callback = ex_throws\<rparr>]"
  by (simp add: onState_def onAutomation_def ex_empty_def Let_def)

section \<open>Properties of the automation base class\<close>

subsection \<open>Arrays and the timer loops of destroy\<close>

lemma indexOf_notin: "x \<notin> set xs \<Longrightarrow> indexOf xs x = - 1"
  by (induction xs) (auto simp: Let_def)

lemma indexOf_in:
  "x \<in> set xs \<Longrightarrow> 0 \<le> indexOf xs x \<and> indexOf xs x < int (length xs) \<and> xs ! nat (indexOf xs x) = x"
  by (induction xs) (auto simp: Let_def nat_add_distrib)

lemma splice1_minus_one: "splice1 xs (- 1) = butlast xs"
proof (cases "xs = []")
  case True
  then show ?thesis by (simp add: splice1_def)
next
  case False
  then have "nat (max (int (length xs) + - 1) 0) = length xs - 1"
    by (cases xs) auto
  with False show ?thesis
    by (simp add: splice1_def Let_def butlast_conv_take)
qed

lemma splice1_at:
  assumes "i < length xs"
  shows "splice1 xs (int i) = take i xs @ drop (Suc i) xs"
  using assms by (simp add: splice1_def Let_def min_def)

lemma splice1_indexOf:
  assumes "x \<in> set xs"
  shows "length (splice1 xs (indexOf xs x)) = length xs - 1"
    and "insert x (set (splice1 xs (indexOf xs x))) = set xs"
proof -
  from indexOf_in [OF assms] obtain i where i: "indexOf xs x = int i" "i < length xs" "xs ! i = x"
    by (metis nat_int nat_less_iff zero_le_imp_eq_int)
  then have s: "splice1 xs (indexOf xs x) = take i xs @ drop (Suc i) xs"
    by (simp add: splice1_at)
  from i show "length (splice1 xs (indexOf xs x)) = length xs - 1"
    unfolding s by simp
  have "xs = take i xs @ x # drop (Suc i) xs"
    using i id_take_nth_drop [of i xs] by simp
  then have "set xs = set (take i xs) \<union> insert x (set (drop (Suc i) xs))"
    by (metis set_append list.simps(15))
  then show "insert x (set (splice1 xs (indexOf xs x))) = set xs"
    unfolding s by auto
qed

lemma splice1_distinct_remove:
  assumes "distinct xs" "x \<in> set xs"
  shows "splice1 xs (indexOf xs x) = removeAll x xs"
  using assms
proof (induction xs)
  case Nil
  then show ?case by simp
next
  case (Cons y ys)
  show ?case
  proof (cases "y = x")
    case True
    with Cons.prems show ?thesis
      by (simp add: splice1_def Let_def)
  next
    case False
    with Cons.prems have x: "x \<in> set ys" and d: "distinct ys" by auto
    from indexOf_in [OF x] have r: "0 \<le> indexOf ys x" "indexOf ys x < int (length ys)" by auto
    from Cons.IH [OF d x] have ih: "splice1 ys (indexOf ys x) = removeAll x ys" .
    have "splice1 (y # ys) (indexOf ys x + 1) = y # splice1 ys (indexOf ys x)"
      using r by (simp add: splice1_def Let_def min_def nat_add_distrib)
    with False r ih show ?thesis
      by (simp add: Let_def)
  qed
qed

lemma clearTimeout_parts:
  "this (clearTimeout w i) =
     (this w)\<lparr>timeouts := splice1 (timeouts (this w))
                  (case i of None \<Rightarrow> - 1 | Some h \<Rightarrow> indexOf (timeouts (this w)) h)\<rparr>"
  "host (clearTimeout w i) =
     (case i of None \<Rightarrow> host w | Some h \<Rightarrow> (host w)\<lparr>active := active (host w) - {h}\<rparr>)"
  "broker (clearTimeout w i) = broker w"
  "running (clearTimeout w i) = running w"
  "observed (clearTimeout w i) = observed w"
  by (simp_all add: clearTimeout_def Let_def)

lemma clearInterval_parts:
  "this (clearInterval w i) =
     (this w)\<lparr>intervals := splice1 (intervals (this w))
                  (case i of None \<Rightarrow> - 1 | Some h \<Rightarrow> indexOf (intervals (this w)) h)\<rparr>"
  "host (clearInterval w i) =
     (case i of None \<Rightarrow> host w | Some h \<Rightarrow> (host w)\<lparr>active := active (host w) - {h}\<rparr>)"
  "broker (clearInterval w i) = broker w"
  "running (clearInterval w i) = running w"
  "observed (clearInterval w i) = observed w"
  by (simp_all add: clearInterval_def Let_def)

lemma destroy_timeouts_all:
  "length (timeouts (this w)) = n \<Longrightarrow>
   destroy_timeouts n w =
     w\<lparr>host := (host w)\<lparr>active := active (host w) - set (timeouts (this w))\<rparr>,
       this := (this w)\<lparr>timeouts := []\<rparr>\<rparr>"
proof (induction n arbitrary: w)
  case 0
  then show ?case by simp
next
  case (Suc n)
  let ?ts = "timeouts (this w)"
  let ?x = "?ts ! n"
  have x: "?x \<in> set ?ts" using Suc.prems by simp
  have nth: "js_nth ?ts n = Some ?x" using Suc.prems by (simp add: js_nth_def)
  let ?w' = "clearTimeout w (Some ?x)"
  have len: "length (timeouts (this ?w')) = n"
    using splice1_indexOf(1) [OF x] Suc.prems by (simp add: clearTimeout_parts)
  have set': "insert ?x (set (timeouts (this ?w'))) = set ?ts"
    using splice1_indexOf(2) [OF x] by (simp add: clearTimeout_parts)
  have "active (host w) - {?x} - set (timeouts (this ?w')) = active (host w) - set ?ts"
    using set' by auto
  then show ?case
    using Suc.IH [OF len] by (simp add: nth clearTimeout_parts)
qed

lemma destroy_intervals_all:
  "length (intervals (this w)) = n \<Longrightarrow>
   destroy_intervals n w =
     w\<lparr>host := (host w)\<lparr>active := active (host w) - set (intervals (this w))\<rparr>,
       this := (this w)\<lparr>intervals := []\<rparr>\<rparr>"
proof (induction n arbitrary: w)
  case 0
  then show ?case by simp
next
  case (Suc n)
  let ?ts = "intervals (this w)"
  let ?x = "?ts ! n"
  have x: "?x \<in> set ?ts" using Suc.prems by simp
  have nth: "js_nth ?ts n = Some ?x" using Suc.prems by (simp add: js_nth_def)
  let ?w' = "clearInterval w (Some ?x)"
  have len: "length (intervals (this ?w')) = n"
    using splice1_indexOf(1) [OF x] Suc.prems by (simp add: clearInterval_parts)
  have set': "insert ?x (set (intervals (this ?w'))) = set ?ts"
    using splice1_indexOf(2) [OF x] by (simp add: clearInterval_parts)
  have "active (host w) - {?x} - set (intervals (this ?w')) = active (host w) - set ?ts"
    using set' by auto
  then show ?case
    using Suc.IH [OF len] by (simp add: nth clearInterval_parts)
qed


subsection \<open>The steps of destroy\<close>

lemma clearRunAt_shape:
  "clearRunAt w i =
     w\<lparr>this := (this w)\<lparr>queue := filter (\<lambda>q. q_id q \<noteq> i) (queue (this w))\<rparr>,
       running := map (detach (queue (this w))) (running w)\<rparr>"
  by (simp add: clearRunAt_def assign_queue_def)

lemma destroy_queue_shape:
  "\<exists>q r. snd (destroy_queue n w) = w\<lparr>this := (this w)\<lparr>queue := q\<rparr>, running := r\<rparr>"
proof (induction n arbitrary: w)
  case 0
  have "w = w\<lparr>this := (this w)\<lparr>queue := queue (this w)\<rparr>, running := running w\<rparr>"
    by simp
  then show ?case by (metis destroy_queue.simps(1) snd_conv)
next
  case (Suc n)
  show ?case
  proof (cases "js_nth (queue (this w)) n")
    case None
    have "w = w\<lparr>this := (this w)\<lparr>queue := queue (this w)\<rparr>, running := running w\<rparr>"
      by simp
    with None show ?thesis by (metis destroy_queue.simps(2) option.simps(4) snd_conv)
  next
    case (Some q)
    from Suc.IH [of "clearRunAt w (q_id q)"] obtain q' r' where
      "snd (destroy_queue n (clearRunAt w (q_id q))) =
         (clearRunAt w (q_id q))\<lparr>this := (this (clearRunAt w (q_id q)))\<lparr>queue := q'\<rparr>, running := r'\<rparr>"
      by blast
    then have "snd (destroy_queue (Suc n) w) = w\<lparr>this := (this w)\<lparr>queue := q'\<rparr>, running := r'\<rparr>"
      using Some by (simp add: clearRunAt_shape)
    then show ?thesis by blast
  qed
qed

lemma filter_last_distinct:
  assumes "distinct (map f xs)" "length xs = Suc n"
  shows "filter (\<lambda>q. f q \<noteq> f (xs ! n)) xs = butlast xs"
proof -
  from assms obtain ys y where xs: "xs = ys @ [y]"
    by (metis length_Suc_conv_rev)
  with assms have n: "length ys = n" by simp
  from assms(1) xs have "f y \<notin> f ` set ys" by auto
  then have "filter (\<lambda>q. f q \<noteq> f y) ys = ys"
    by (simp add: filter_id_conv) (metis imageI)
  moreover have "xs ! n = y" using xs n by (auto simp: nth_append)
  ultimately show ?thesis using xs by simp
qed

lemma destroy_queue_distinct:
  "distinct (map q_id (queue (this w))) \<Longrightarrow> length (queue (this w)) = n \<Longrightarrow>
   \<exists>r. destroy_queue n w = (None, w\<lparr>this := (this w)\<lparr>queue := []\<rparr>, running := r\<rparr>)"
proof (induction n arbitrary: w)
  case 0
  then have "w = w\<lparr>this := (this w)\<lparr>queue := []\<rparr>, running := running w\<rparr>"
    by simp
  then show ?case by (metis destroy_queue.simps(1))
next
  case (Suc n)
  let ?q = "queue (this w)"
  have nth: "js_nth ?q n = Some (?q ! n)" using Suc.prems by (simp add: js_nth_def)
  let ?w' = "clearRunAt w (q_id (?q ! n))"
  have q': "queue (this ?w') = butlast ?q"
    using filter_last_distinct [OF Suc.prems] by (simp add: clearRunAt_shape)
  then have len: "length (queue (this ?w')) = n" using Suc.prems by simp
  have dist: "distinct (map q_id (queue (this ?w')))"
    using Suc.prems(1) distinct_butlast [of "map q_id (queue (this w))"]
    unfolding q' by (simp add: map_butlast)
  from Suc.IH [OF dist len] obtain r where
    "destroy_queue n ?w' = (None, ?w'\<lparr>this := (this ?w')\<lparr>queue := []\<rparr>, running := r\<rparr>)"
    by blast
  then have "destroy_queue (Suc n) w = (None, w\<lparr>this := (this w)\<lparr>queue := []\<rparr>, running := r\<rparr>)"
    using nth by (simp add: clearRunAt_shape)
  then show ?case by blast
qed

lemma for_of_mqtt_shape:
  "\<exists>tr. snd (for_of xs (mqtt_unsubscribe unsub) w) = w\<lparr>observed := observed w @ tr\<rparr>"
proof (induction xs arbitrary: w)
  case Nil
  have "w = w\<lparr>observed := observed w @ []\<rparr>" by simp
  then show ?case by (metis for_of.simps(1) snd_conv)
next
  case (Cons x xs)
  let ?w' = "w\<lparr>observed := observed w @ [Unsubscribed (fst x) (snd x)]\<rparr>"
  show ?case
  proof (cases "unsub (fst x) (snd x)")
    case None
    from Cons.IH [of ?w'] obtain tr where
      "snd (for_of xs (mqtt_unsubscribe unsub) ?w') = ?w'\<lparr>observed := observed ?w' @ tr\<rparr>"
      by blast
    then have "snd (for_of (x # xs) (mqtt_unsubscribe unsub) w) =
                 w\<lparr>observed := observed w @ (Unsubscribed (fst x) (snd x) # tr)\<rparr>"
      using None by (simp add: mqtt_unsubscribe_def)
    then show ?thesis by blast
  next
    case (Some e)
    then have "snd (for_of (x # xs) (mqtt_unsubscribe unsub) w) =
                 w\<lparr>observed := observed w @ [Unsubscribed (fst x) (snd x)]\<rparr>"
      by (simp add: mqtt_unsubscribe_def)
    then show ?thesis by blast
  qed
qed

lemma for_of_mqtt_ok:
  "\<forall>s \<in> set xs. unsub (fst s) (snd s) = None \<Longrightarrow>
   for_of xs (mqtt_unsubscribe unsub) w =
     (None, w\<lparr>observed := observed w @ map (\<lambda>s. Unsubscribed (fst s) (snd s)) xs\<rparr>)"
  by (induction xs arbitrary: w) (simp_all add: mqtt_unsubscribe_def)

lemma for_of_clearOnState:
  "for_of subs
     (\<lambda>sub. try_catch
        (\<lambda>w. (None, w\<lparr>broker := clearOnState (broker w) (li_entityId sub) (li_id sub)\<rparr>))
        log_error) w =
   (None, w\<lparr>broker := foldl (\<lambda>a sub. clearOnState a (li_entityId sub) (li_id sub)) (broker w) subs\<rparr>)"
  by (induction subs arbitrary: w) (simp_all add: try_catch_def)

lemma for_of_clearOnAutomation:
  "for_of subs
     (\<lambda>sub. try_catch
        (\<lambda>w. (None, w\<lparr>broker := clearOnAutomation (broker w) (li_entityId sub) (li_id sub)\<rparr>))
        log_error) w =
   (None, w\<lparr>broker := foldl (\<lambda>a sub. clearOnAutomation a (li_entityId sub) (li_id sub)) (broker w) subs\<rparr>)"
  by (induction subs arbitrary: w) (simp_all add: try_catch_def)

lemma clearOnState_ids:
  "state_listener_ids (clearOnState api e i) e' =
     (if e' = e then state_listener_ids api e - {i} else state_listener_ids api e')"
  "automation_listener_ids (clearOnState api e i) e' = automation_listener_ids api e'"
  "states (clearOnState api e i) = states api"
  by (auto simp: state_listener_ids_def automation_listener_ids_def clearOnState_def Let_def
      filter_empty_conv split: option.splits)

lemma clearOnAutomation_ids:
  "automation_listener_ids (clearOnAutomation api e i) e' =
     (if e' = e then automation_listener_ids api e - {i} else automation_listener_ids api e')"
  "state_listener_ids (clearOnAutomation api e i) e' = state_listener_ids api e'"
  "states (clearOnAutomation api e i) = states api"
  by (auto simp: state_listener_ids_def automation_listener_ids_def clearOnAutomation_def Let_def
      filter_empty_conv split: option.splits)

lemma foldl_clearOnState_ids:
  "state_listener_ids (foldl (\<lambda>a sub. clearOnState a (li_entityId sub) (li_id sub)) api subs) e =
     state_listener_ids api e - {li_id s | s. s \<in> set subs \<and> li_entityId s = e}"
  "automation_listener_ids (foldl (\<lambda>a sub. clearOnState a (li_entityId sub) (li_id sub)) api subs) e =
     automation_listener_ids api e"
  by (induction subs arbitrary: api) (auto simp: clearOnState_ids)

lemma foldl_clearOnAutomation_ids:
  "automation_listener_ids
     (foldl (\<lambda>a sub. clearOnAutomation a (li_entityId sub) (li_id sub)) api subs) e =
     automation_listener_ids api e - {li_id s | s. s \<in> set subs \<and> li_entityId s = e}"
  "state_listener_ids
     (foldl (\<lambda>a sub. clearOnAutomation a (li_entityId sub) (li_id sub)) api subs) e =
     state_listener_ids api e"
  by (induction subs arbitrary: api) (auto simp: clearOnAutomation_ids)


lemma host_seq:
  assumes "\<And>s. host (snd (f s)) = host s" and "\<And>s. host (snd (g s)) = host s"
  shows "host (snd (seq f g s)) = host s"
proof (cases "f s")
  case (Pair r s')
  with assms(1) [of s] have h: "host s' = host s" by simp
  show ?thesis
  proof (cases r)
    case None
    with Pair have "seq f g s = g s'" by (simp add: seq_def)
    with assms(2) [of s'] h show ?thesis by simp
  next
    case (Some e)
    with Pair have "seq f g s = (Some e, s')" by (simp add: seq_def)
    with h show ?thesis by simp
  qed
qed

lemma host_destroy_queue: "host (snd (destroy_queue n w)) = host w"
proof -
  from destroy_queue_shape [of n w] obtain q r where
    "snd (destroy_queue n w) = w\<lparr>this := (this w)\<lparr>queue := q\<rparr>, running := r\<rparr>" by blast
  then show ?thesis by simp
qed

lemma host_for_of_mqtt: "host (snd (for_of xs (mqtt_unsubscribe unsub) w)) = host w"
proof -
  from for_of_mqtt_shape [of xs unsub w] obtain tr where
    "snd (for_of xs (mqtt_unsubscribe unsub) w) = w\<lparr>observed := observed w @ tr\<rparr>" by blast
  then show ?thesis by simp
qed

lemma destroy_host:
  "host (snd (destroy unsub w)) =
     (host w)\<lparr>active := active (host w) - set (timeouts (this w)) - set (intervals (this w))\<rparr>"
proof -
  let ?w1 = "destroy_timeouts (length (timeouts (this w))) w"
  let ?w2 = "destroy_intervals (length (intervals (this ?w1))) ?w1"
  let ?rest =
    "seq (\<lambda>w. destroy_queue (length (queue (this w))) w)
    (seq (\<lambda>w. for_of (mqttSubscriptions (this w)) (mqtt_unsubscribe unsub) w)
    (seq (\<lambda>w. (None, w\<lparr>this := (this w)\<lparr>mqttSubscriptions := []\<rparr>\<rparr>))
    (seq (\<lambda>w. for_of (stateSubscriptions (this w))
                 (\<lambda>sub. try_catch
                    (\<lambda>w. (None, w\<lparr>broker := clearOnState (broker w) (li_entityId sub) (li_id sub)\<rparr>))
                    log_error) w)
    (seq (\<lambda>w. for_of (automationSubscriptions (this w))
                 (\<lambda>sub. try_catch
                    (\<lambda>w. (None, w\<lparr>broker :=
                                    clearOnAutomation (broker w) (li_entityId sub) (li_id sub)\<rparr>))
                    log_error) w)
         (\<lambda>w. (None, w\<lparr>this := (this w)\<lparr>eachMinutes := []\<rparr>\<rparr>))))))"
  have d: "destroy unsub w = ?rest ?w2"
    by (simp add: destroy_def seq_def)
  have "host (snd (?rest s)) = host s" for s
    by (intro host_seq)
       (simp_all add: host_destroy_queue host_for_of_mqtt for_of_clearOnState
          for_of_clearOnAutomation)
  then have "host (snd (destroy unsub w)) = host ?w2"
    unfolding d by simp
  also have "\<dots> = (host w)\<lparr>active := active (host w) - set (timeouts (this w))
                         - set (intervals (this w))\<rparr>"
    by (simp add: destroy_timeouts_all destroy_intervals_all)
  finally show ?thesis .
qed

lemma destroy_returns:
  assumes "distinct (map q_id (queue (this w)))"
    and "\<forall>s \<in> set (mqttSubscriptions (this w)). unsub (fst s) (snd s) = None"
  shows "\<exists>r. destroy unsub w =
           (None,
            w\<lparr>this := (this w)\<lparr>timeouts := [], intervals := [], queue := [],
                                mqttSubscriptions := [], eachMinutes := []\<rparr>,
              host := (host w)\<lparr>active := active (host w) - set (timeouts (this w))
                                  - set (intervals (this w))\<rparr>,
              broker :=
                foldl (\<lambda>a sub. clearOnAutomation a (li_entityId sub) (li_id sub))
                  (foldl (\<lambda>a sub. clearOnState a (li_entityId sub) (li_id sub)) (broker w)
                     (stateSubscriptions (this w)))
                  (automationSubscriptions (this w)),
              running := r,
              observed := observed w @
                map (\<lambda>s. Unsubscribed (fst s) (snd s)) (mqttSubscriptions (this w))\<rparr>)"
proof -
  define w2 where
    "w2 = w\<lparr>host := (host w)\<lparr>active := active (host w) - set (timeouts (this w))
                                  - set (intervals (this w))\<rparr>,
            this := (this w)\<lparr>timeouts := [], intervals := []\<rparr>\<rparr>"
  have a: "seq (\<lambda>w. (None, destroy_timeouts (length (timeouts (this w))) w))
             (seq (\<lambda>w. (None, destroy_intervals (length (intervals (this w))) w)) rest) w =
           rest w2" for rest
    by (simp add: seq_def destroy_timeouts_all destroy_intervals_all w2_def)
  have dq: "distinct (map q_id (queue (this w2)))"
    using assms(1) by (simp add: w2_def)
  from destroy_queue_distinct [OF dq refl] obtain r where
    q: "destroy_queue (length (queue (this w2))) w2 =
          (None, w2\<lparr>this := (this w2)\<lparr>queue := []\<rparr>, running := r\<rparr>)"
    by blast
  define w3 where "w3 = w2\<lparr>this := (this w2)\<lparr>queue := []\<rparr>, running := r\<rparr>"
  have b: "seq (\<lambda>w. destroy_queue (length (queue (this w))) w) rest w2 = rest w3" for rest
    by (simp add: seq_def q w3_def)
  define w4 where
    "w4 = w3\<lparr>observed := observed w3 @
              map (\<lambda>s. Unsubscribed (fst s) (snd s)) (mqttSubscriptions (this w3))\<rparr>"
  have "\<forall>s \<in> set (mqttSubscriptions (this w3)). unsub (fst s) (snd s) = None"
    using assms(2) by (simp add: w3_def w2_def)
  then have m: "for_of (mqttSubscriptions (this w3)) (mqtt_unsubscribe unsub) w3 = (None, w4)"
    unfolding w4_def by (rule for_of_mqtt_ok)
  have c: "seq (\<lambda>w. for_of (mqttSubscriptions (this w)) (mqtt_unsubscribe unsub) w) rest w3 =
           rest w4" for rest
    by (simp add: seq_def m)
  define w5 where "w5 = w4\<lparr>this := (this w4)\<lparr>mqttSubscriptions := []\<rparr>\<rparr>"
  have d: "seq (\<lambda>w. (None, w\<lparr>this := (this w)\<lparr>mqttSubscriptions := []\<rparr>\<rparr>)) rest w4 = rest w5"
    for rest
    by (simp add: seq_def w5_def)
  define w6 where
    "w6 = w5\<lparr>broker := foldl (\<lambda>a sub. clearOnState a (li_entityId sub) (li_id sub)) (broker w5)
                          (stateSubscriptions (this w5))\<rparr>"
  have e: "seq (\<lambda>w. for_of (stateSubscriptions (this w))
                 (\<lambda>sub. try_catch
                    (\<lambda>w. (None, w\<lparr>broker := clearOnState (broker w) (li_entityId sub) (li_id sub)\<rparr>))
                    log_error) w) rest w5 = rest w6" for rest
    by (simp add: seq_def for_of_clearOnState w6_def)
  define w7 where
    "w7 = w6\<lparr>broker := foldl (\<lambda>a sub. clearOnAutomation a (li_entityId sub) (li_id sub))
                          (broker w6) (automationSubscriptions (this w6))\<rparr>"
  have f: "seq (\<lambda>w. for_of (automationSubscriptions (this w))
                 (\<lambda>sub. try_catch
                    (\<lambda>w. (None, w\<lparr>broker :=
                                    clearOnAutomation (broker w) (li_entityId sub) (li_id sub)\<rparr>))
                    log_error) w) rest w6 = rest w7" for rest
    by (simp add: seq_def for_of_clearOnAutomation w7_def)
  have "destroy unsub w = (None, w7\<lparr>this := (this w7)\<lparr>eachMinutes := []\<rparr>\<rparr>)"
    by (simp only: destroy_def a b c d e f)
  also have "w7\<lparr>this := (this w7)\<lparr>eachMinutes := []\<rparr>\<rparr> =
            w\<lparr>this := (this w)\<lparr>timeouts := [], intervals := [], queue := [],
                                mqttSubscriptions := [], eachMinutes := []\<rparr>,
              host := (host w)\<lparr>active := active (host w) - set (timeouts (this w))
                                  - set (intervals (this w))\<rparr>,
              broker :=
                foldl (\<lambda>a sub. clearOnAutomation a (li_entityId sub) (li_id sub))
                  (foldl (\<lambda>a sub. clearOnState a (li_entityId sub) (li_id sub)) (broker w)
                     (stateSubscriptions (this w)))
                  (automationSubscriptions (this w)),
              running := r,
              observed := observed w @
                map (\<lambda>s. Unsubscribed (fst s) (snd s)) (mqttSubscriptions (this w))\<rparr>"
    by (simp add: w7_def w6_def w5_def w4_def w3_def w2_def)
  finally show ?thesis by blast
qed

subsection \<open>The example modules\<close>

lemma ex_module_parts:
  "timeouts (this ex_module) = [3, 4]"
  "intervals (this ex_module) = [1, 2]"
  "queue (this ex_module) =
     [\<lparr>q_id = (5000, 11), q_date = 9000, q_callback = ex_task\<rparr>,
      \<lparr>q_id = (5000, 12), q_date = 9500, q_callback = ex_task\<rparr>]"
  "eachMinutes (this ex_module) = [\<lparr>em_id = (5000, 3), em_callback = ex_task\<rparr>]"
  "mqttSubscriptions (this ex_module) = []"
  "stateSubscriptions (this ex_module) = [\<lparr>li_id = 5007, li_entityId = ''light.kitchen''\<rparr>]"
  "automationSubscriptions (this ex_module) = [\<lparr>li_id = 5008, li_entityId = ''automation.motion''\<rparr>]"
  "active (host ex_module) = {1, 2, 3, 4}"
  "running ex_module = []"
  "observed ex_module = []"
  "stateListeners (broker ex_module) ''light.kitchen'' =
     Some [\<lparr>sl_id = 1017, sl_callback = ex_throws\<rparr>, \<lparr>sl_id = 2004, sl_callback = ex_returns\<rparr>,
           \<lparr>sl_id = 5007, sl_callback = ex_returns\<rparr>]"
  "automationListeners (broker ex_module) ''automation.motion'' =
     Some [\<lparr>al_id = 3005, al_callback = ex_trigger_throws\<rparr>,
           \<lparr>al_id = 4006, al_callback = ex_trigger_returns\<rparr>,
           \<lparr>al_id = 5008, al_callback = ex_trigger_returns\<rparr>]"
  by (auto simp: ex_module_def new_Automation_def setInterval_def setTimeout_def Let_def
      onStateChange_def onAutomationTrigger_def runAt_def setEachMinute_def ex_node_def
      onState_def onAutomation_def ex_api_listeners)

subsection \<open>Clearing a handle that is not tracked\<close>

lemma last_notin_butlast: "distinct xs \<Longrightarrow> xs \<noteq> [] \<Longrightarrow> last xs \<notin> set (butlast xs)"
  by (induction xs rule: rev_induct) auto

lemma double_clearTimeout:
  assumes "distinct (timeouts (this w))" and "a \<in> set (timeouts (this w))"
  shows "timeouts (this (clearTimeout (clearTimeout w (Some a)) (Some a))) =
           butlast (removeAll a (timeouts (this w)))"
    and "intervals (this (clearTimeout (clearTimeout w (Some a)) (Some a))) = intervals (this w)"
    and "active (host (clearTimeout (clearTimeout w (Some a)) (Some a))) = active (host w) - {a}"
proof -
  let ?w1 = "clearTimeout w (Some a)"
  have t1: "timeouts (this ?w1) = removeAll a (timeouts (this w))"
    using splice1_distinct_remove [OF assms] by (simp add: clearTimeout_parts)
  then have "a \<notin> set (timeouts (this ?w1))" by simp
  then have "indexOf (timeouts (this ?w1)) a = - 1" by (rule indexOf_notin)
  then show "timeouts (this (clearTimeout ?w1 (Some a))) = butlast (removeAll a (timeouts (this w)))"
    by (simp add: clearTimeout_parts [of ?w1] splice1_minus_one t1)
  show "intervals (this (clearTimeout ?w1 (Some a))) = intervals (this w)"
    by (simp add: clearTimeout_parts)
  show "active (host (clearTimeout ?w1 (Some a))) = active (host w) - {a}"
    by (auto simp: clearTimeout_parts)
qed

lemma double_clearInterval:
  assumes "distinct (intervals (this w))" and "a \<in> set (intervals (this w))"
  shows "intervals (this (clearInterval (clearInterval w (Some a)) (Some a))) =
           butlast (removeAll a (intervals (this w)))"
    and "timeouts (this (clearInterval (clearInterval w (Some a)) (Some a))) = timeouts (this w)"
    and "active (host (clearInterval (clearInterval w (Some a)) (Some a))) = active (host w) - {a}"
proof -
  let ?w1 = "clearInterval w (Some a)"
  have t1: "intervals (this ?w1) = removeAll a (intervals (this w))"
    using splice1_distinct_remove [OF assms] by (simp add: clearInterval_parts)
  then have "a \<notin> set (intervals (this ?w1))" by simp
  then have "indexOf (intervals (this ?w1)) a = - 1" by (rule indexOf_notin)
  then show "intervals (this (clearInterval ?w1 (Some a))) =
               butlast (removeAll a (intervals (this w)))"
    by (simp add: clearInterval_parts [of ?w1] splice1_minus_one t1)
  show "timeouts (this (clearInterval ?w1 (Some a))) = timeouts (this w)"
    by (simp add: clearInterval_parts)
  show "active (host (clearInterval ?w1 (Some a))) = active (host w) - {a}"
    by (auto simp: clearInterval_parts)
qed

text \<open>
  C10. Clearing a handle that is not in the tracking list removes the last handle of the
  list, the one tracked most recently (and nothing when the list is empty), for timeouts
  and for intervals alike. So when a tracked handle \<open>a\<close> is cleared twice, the second call
  untracks \<open>b\<close>, the last of the other tracked handles: \<open>b\<close> is another handle, it is no
  longer tracked although the host still runs it, and \<open>destroy\<close>, which clears what is
  tracked, leaves it running.
\<close>

theorem clearing_untracked_handle_untracks_last:
  "(h \<notin> set (timeouts (this w)) \<longrightarrow>
      timeouts (this (clearTimeout w (Some h))) = butlast (timeouts (this w)))
   \<and> (h \<notin> set (intervals (this w)) \<longrightarrow>
      intervals (this (clearInterval w (Some h))) = butlast (intervals (this w)))
   \<and> (distinct (timeouts (this w)) \<and> a \<in> set (timeouts (this w))
        \<and> removeAll a (timeouts (this w)) \<noteq> [] \<and> b = last (removeAll a (timeouts (this w)))
        \<and> b \<in> active (host w) \<and> b \<notin> set (intervals (this w)) \<longrightarrow>
      b \<noteq> a
      \<and> b \<notin> set (timeouts (this (clearTimeout (clearTimeout w (Some a)) (Some a))))
      \<and> b \<in> active (host (clearTimeout (clearTimeout w (Some a)) (Some a)))
      \<and> b \<in> active (host (snd (destroy unsubscribe
                                   (clearTimeout (clearTimeout w (Some a)) (Some a))))))
   \<and> (distinct (intervals (this w)) \<and> a \<in> set (intervals (this w))
        \<and> removeAll a (intervals (this w)) \<noteq> [] \<and> b = last (removeAll a (intervals (this w)))
        \<and> b \<in> active (host w) \<and> b \<notin> set (timeouts (this w)) \<longrightarrow>
      b \<noteq> a
      \<and> b \<notin> set (intervals (this (clearInterval (clearInterval w (Some a)) (Some a))))
      \<and> b \<in> active (host (clearInterval (clearInterval w (Some a)) (Some a)))
      \<and> b \<in> active (host (snd (destroy unsubscribe
                                   (clearInterval (clearInterval w (Some a)) (Some a))))))"
proof (intro conjI impI)
  assume "h \<notin> set (timeouts (this w))"
  then show "timeouts (this (clearTimeout w (Some h))) = butlast (timeouts (this w))"
    by (simp add: clearTimeout_parts indexOf_notin splice1_minus_one)
next
  assume "h \<notin> set (intervals (this w))"
  then show "intervals (this (clearInterval w (Some h))) = butlast (intervals (this w))"
    by (simp add: clearInterval_parts indexOf_notin splice1_minus_one)
next
  assume *: "distinct (timeouts (this w)) \<and> a \<in> set (timeouts (this w))
        \<and> removeAll a (timeouts (this w)) \<noteq> [] \<and> b = last (removeAll a (timeouts (this w)))
        \<and> b \<in> active (host w) \<and> b \<notin> set (intervals (this w))"
  let ?w2 = "clearTimeout (clearTimeout w (Some a)) (Some a)"
  let ?rs = "removeAll a (timeouts (this w))"
  from * have d: "distinct (timeouts (this w))" and a: "a \<in> set (timeouts (this w))"
    and rs: "?rs \<noteq> []" and b: "b = last ?rs"
    and act: "b \<in> active (host w)" and other: "b \<notin> set (intervals (this w))"
    by blast+
  note dc = double_clearTimeout [OF d a]
  from rs b have "b \<in> set ?rs" using last_in_set by blast
  then show ab: "b \<noteq> a" by auto
  have "distinct ?rs" using d by (simp add: distinct_removeAll)
  then show 1: "b \<notin> set (timeouts (this ?w2))"
    using rs b by (simp add: dc last_notin_butlast)
  show 2: "b \<in> active (host ?w2)" using act ab by (simp add: dc)
  show "b \<in> active (host (snd (destroy unsubscribe ?w2)))"
    using 1 2 other by (simp add: destroy_host dc(2))
next
  assume *: "distinct (intervals (this w)) \<and> a \<in> set (intervals (this w))
        \<and> removeAll a (intervals (this w)) \<noteq> [] \<and> b = last (removeAll a (intervals (this w)))
        \<and> b \<in> active (host w) \<and> b \<notin> set (timeouts (this w))"
  let ?w2 = "clearInterval (clearInterval w (Some a)) (Some a)"
  let ?rs = "removeAll a (intervals (this w))"
  from * have d: "distinct (intervals (this w))" and a: "a \<in> set (intervals (this w))"
    and rs: "?rs \<noteq> []" and b: "b = last ?rs"
    and act: "b \<in> active (host w)" and other: "b \<notin> set (timeouts (this w))"
    by blast+
  note dc = double_clearInterval [OF d a]
  from rs b have "b \<in> set ?rs" using last_in_set by blast
  then show ab: "b \<noteq> a" by auto
  have "distinct ?rs" using d by (simp add: distinct_removeAll)
  then show 1: "b \<notin> set (intervals (this ?w2))"
    using rs b by (simp add: dc last_notin_butlast)
  show 2: "b \<in> active (host ?w2)" using act ab by (simp add: dc)
  show "b \<in> active (host (snd (destroy unsubscribe ?w2)))"
    using 1 2 other by (simp add: destroy_host dc(2))
qed

theorem clearing_untracked_handle_untracks_last_witness:
  "9 \<notin> set (timeouts (this ex_module))
   \<and> timeouts (this ex_module) = [3, 4]
   \<and> timeouts (this (clearTimeout ex_module (Some 9))) = [3]
   \<and> 4 \<in> active (host ex_module)
   \<and> 4 \<notin> set (timeouts (this (clearTimeout (clearTimeout ex_module (Some 3)) (Some 3))))
   \<and> 4 \<in> active (host (snd (destroy ex_unsubscribe
                                (clearTimeout (clearTimeout ex_module (Some 3)) (Some 3)))))
   \<and> intervals (this ex_module) = [1, 2]
   \<and> 1 \<notin> set (intervals (this (clearInterval (clearInterval ex_module (Some 2)) (Some 2))))
   \<and> 1 \<in> active (host (snd (destroy ex_unsubscribe
                                (clearInterval (clearInterval ex_module (Some 2)) (Some 2)))))"
  using clearing_untracked_handle_untracks_last
          [where w = ex_module and h = 9 and b = 4 and a = 3 and unsubscribe = ex_unsubscribe]
        clearing_untracked_handle_untracks_last
          [where w = ex_module and h = 9 and b = 1 and a = 2 and unsubscribe = ex_unsubscribe]
  by (simp add: ex_module_parts)

lemma state_entries_ids:
  "StateCall i c' n' old' \<in> set (concat (map (\<lambda>l. case sl_callback l c n old of
                                    Inl e \<Rightarrow> [StateCall (sl_id l) c n old, LogError e]
                                  | Inr u \<Rightarrow> [StateCall (sl_id l) c n old]) ls))
   \<Longrightarrow> i \<in> sl_id ` set ls"
proof (induction ls)
  case Nil
  then show ?case by simp
next
  case (Cons l ls)
  then show ?case by (cases "sl_callback l c n old") auto
qed

lemma trigger_entries_ids:
  "TriggerCall i c' \<in> set (concat (map (\<lambda>l. case al_callback l c of
                                    Inl e \<Rightarrow> [TriggerCall (al_id l) c, LogError e]
                                  | Inr u \<Rightarrow> [TriggerCall (al_id l) c]) ls))
   \<Longrightarrow> i \<in> al_id ` set ls"
proof (induction ls)
  case Nil
  then show ?case by simp
next
  case (Cons l ls)
  then show ?case by (cases "al_callback l c") auto
qed

lemma state_calls_from_registry:
  assumes "StateCall i c n old \<in> set (snd (snd (API_onStateChange api msg)))"
  shows "\<exists>ns. new_state msg = Some ns \<and> i \<in> state_listener_ids api (entity_id ns)"
proof (cases "new_state msg")
  case None
  with assms show ?thesis by (simp add: API_onStateChange_def)
next
  case (Some ns)
  show ?thesis
  proof (cases "stateListeners api (entity_id ns)")
    case None
    with Some assms show ?thesis by (simp add: API_onStateChange_def Let_def)
  next
    case (Some ls)
    with \<open>new_state msg = Some ns\<close> have
      "snd (snd (API_onStateChange api msg)) =
         concat (map (\<lambda>l. case sl_callback l ((states api)(entity_id ns \<mapsto> ns)) ns
                                  (old_state msg) of
             Inl e \<Rightarrow> [StateCall (sl_id l) ((states api)(entity_id ns \<mapsto> ns)) ns
                        (old_state msg), LogError e]
           | Inr u \<Rightarrow> [StateCall (sl_id l) ((states api)(entity_id ns \<mapsto> ns)) ns
                        (old_state msg)]) ls)"
      by (simp add: API_onStateChange_def Let_def for_of_state_listeners)
    with assms have "StateCall i c n old \<in> set (concat (map (\<lambda>l. case sl_callback l ((states api)(entity_id ns \<mapsto> ns)) ns
                                  (old_state msg) of
             Inl e \<Rightarrow> [StateCall (sl_id l) ((states api)(entity_id ns \<mapsto> ns)) ns
                        (old_state msg), LogError e]
           | Inr u \<Rightarrow> [StateCall (sl_id l) ((states api)(entity_id ns \<mapsto> ns)) ns
                        (old_state msg)]) ls))"
      by (simp only:)
    then have "i \<in> sl_id ` set ls"
      by (rule state_entries_ids)
    with Some \<open>new_state msg = Some ns\<close> show ?thesis
      by (simp add: state_listener_ids_def)
  qed
qed

lemma trigger_calls_from_registry:
  assumes "TriggerCall i c \<in> set (snd (snd (API_onAutomationTrigger api msg)))"
  shows "i \<in> automation_listener_ids api (at_entity_id msg)"
proof (cases "automationListeners api (at_entity_id msg)")
  case None
  with assms show ?thesis by (simp add: API_onAutomationTrigger_def)
next
  case (Some ls)
  then have
    "snd (snd (API_onAutomationTrigger api msg)) =
       concat (map (\<lambda>l. case al_callback l (states api) of
           Inl e \<Rightarrow> [TriggerCall (al_id l) (states api), LogError e]
         | Inr u \<Rightarrow> [TriggerCall (al_id l) (states api)]) ls)"
    by (simp add: API_onAutomationTrigger_def for_of_automation_listeners)
  with assms have "TriggerCall i c \<in> set (concat (map (\<lambda>l. case al_callback l (states api) of
           Inl e \<Rightarrow> [TriggerCall (al_id l) (states api), LogError e]
         | Inr u \<Rightarrow> [TriggerCall (al_id l) (states api)]) ls))"
    by (simp only:)
  then have "i \<in> al_id ` set ls"
    by (rule trigger_entries_ids)
  with Some show ?thesis
    by (simp add: automation_listener_ids_def)
qed

lemma checkQueue_empty:
  "queue (this w) = [] \<Longrightarrow> observed (checkQueue w now) = observed w"
  by (simp add: checkQueue_def checkQueue_continue_def poll_array_def assign_queue_def)

lemma checkEachMinute_empty:
  "eachMinutes (this w) = [] \<Longrightarrow> observed (snd (checkEachMinute current w)) = observed w"
  by (simp add: checkEachMinute_def Let_def)

text \<open>
  When \<open>destroy\<close> returns. Let the pending delayed tasks of a module have pairwise
  distinct ids, and let no \<^verbatim>\<open>unsubscribe\<close> of its mqtt subscriptions throw. Then
  \<open>destroy\<close> returns normally, and afterwards: the lists of tracked timeouts and
  intervals, the queue of delayed tasks, the list of per-minute callbacks and the map of
  mqtt subscriptions are empty; the host no longer runs any handle that was tracked; no
  listener recorded in the module's two subscription lists is left in the broker's
  registries, so an event for a subscribed entity invokes none of them; a poll of the
  delayed tasks or of the per-minute callbacks that starts afterwards invokes nothing. The
  two subscription lists themselves are left as they were.
\<close>

lemma destroy_releases_what_is_tracked:
  assumes "distinct (map q_id (queue (this w)))"
    and "\<forall>s \<in> set (mqttSubscriptions (this w)). unsubscribe (fst s) (snd s) = None"
  shows "\<exists>w'. destroy unsubscribe w = (None, w')
     \<and> timeouts (this w') = [] \<and> intervals (this w') = [] \<and> queue (this w') = []
     \<and> eachMinutes (this w') = [] \<and> mqttSubscriptions (this w') = []
     \<and> active (host w') = active (host w) - set (timeouts (this w)) - set (intervals (this w))
     \<and> (\<forall>sub \<in> set (stateSubscriptions (this w)).
           li_id sub \<notin> state_listener_ids (broker w') (li_entityId sub)
           \<and> (\<forall>msg ns c n old. new_state msg = Some ns \<and> entity_id ns = li_entityId sub \<longrightarrow>
                 StateCall (li_id sub) c n old \<notin>
                   set (snd (snd (API_onStateChange (broker w') msg)))))
     \<and> (\<forall>sub \<in> set (automationSubscriptions (this w)).
           li_id sub \<notin> automation_listener_ids (broker w') (li_entityId sub)
           \<and> (\<forall>msg c. at_entity_id msg = li_entityId sub \<longrightarrow>
                 TriggerCall (li_id sub) c \<notin>
                   set (snd (snd (API_onAutomationTrigger (broker w') msg)))))
     \<and> (\<forall>now. observed (checkQueue w' now) = observed w')
     \<and> (\<forall>current. observed (snd (checkEachMinute current w')) = observed w')
     \<and> stateSubscriptions (this w') = stateSubscriptions (this w)
     \<and> automationSubscriptions (this w') = automationSubscriptions (this w)"
proof -
  from destroy_returns [OF assms] obtain r where
    d: "destroy unsubscribe w =
           (None,
            w\<lparr>this := (this w)\<lparr>timeouts := [], intervals := [], queue := [],
                                mqttSubscriptions := [], eachMinutes := []\<rparr>,
              host := (host w)\<lparr>active := active (host w) - set (timeouts (this w))
                                  - set (intervals (this w))\<rparr>,
              broker :=
                foldl (\<lambda>a sub. clearOnAutomation a (li_entityId sub) (li_id sub))
                  (foldl (\<lambda>a sub. clearOnState a (li_entityId sub) (li_id sub)) (broker w)
                     (stateSubscriptions (this w)))
                  (automationSubscriptions (this w)),
              running := r,
              observed := observed w @
                map (\<lambda>s. Unsubscribed (fst s) (snd s)) (mqttSubscriptions (this w))\<rparr>)"
    by blast
  define w' where "w' = snd (destroy unsubscribe w)"
  have parts:
    "timeouts (this w') = []" "intervals (this w') = []" "queue (this w') = []"
    "eachMinutes (this w') = []" "mqttSubscriptions (this w') = []"
    "active (host w') = active (host w) - set (timeouts (this w)) - set (intervals (this w))"
    "stateSubscriptions (this w') = stateSubscriptions (this w)"
    "automationSubscriptions (this w') = automationSubscriptions (this w)"
    "broker w' =
       foldl (\<lambda>a sub. clearOnAutomation a (li_entityId sub) (li_id sub))
         (foldl (\<lambda>a sub. clearOnState a (li_entityId sub) (li_id sub)) (broker w)
            (stateSubscriptions (this w)))
         (automationSubscriptions (this w))"
    by (simp_all add: w'_def d)
  have st: "li_id sub \<notin> state_listener_ids (broker w') (li_entityId sub)"
    if "sub \<in> set (stateSubscriptions (this w))" for sub
    using that by (auto simp: parts foldl_clearOnAutomation_ids foldl_clearOnState_ids)
  have au: "li_id sub \<notin> automation_listener_ids (broker w') (li_entityId sub)"
    if "sub \<in> set (automationSubscriptions (this w))" for sub
    using that by (auto simp: parts foldl_clearOnAutomation_ids foldl_clearOnState_ids)
  have st_ev: "StateCall (li_id sub) c n old \<notin> set (snd (snd (API_onStateChange (broker w') msg)))"
    if "sub \<in> set (stateSubscriptions (this w))" "new_state msg = Some ns"
       "entity_id ns = li_entityId sub" for sub msg ns c n old
    using state_calls_from_registry [of "li_id sub" c n old "broker w'" msg] st [OF that(1)] that
    by auto
  have au_ev: "TriggerCall (li_id sub) c \<notin> set (snd (snd (API_onAutomationTrigger (broker w') msg)))"
    if "sub \<in> set (automationSubscriptions (this w))" "at_entity_id msg = li_entityId sub"
    for sub msg c
    using trigger_calls_from_registry [of "li_id sub" c "broker w'" msg] au [OF that(1)] that
    by auto
  have "destroy unsubscribe w = (None, w')"
    by (simp add: w'_def d)
  moreover have "\<forall>sub \<in> set (stateSubscriptions (this w)).
           li_id sub \<notin> state_listener_ids (broker w') (li_entityId sub)
           \<and> (\<forall>msg ns c n old. new_state msg = Some ns \<and> entity_id ns = li_entityId sub \<longrightarrow>
                 StateCall (li_id sub) c n old \<notin>
                   set (snd (snd (API_onStateChange (broker w') msg))))"
    using st st_ev by blast
  moreover have "\<forall>sub \<in> set (automationSubscriptions (this w)).
           li_id sub \<notin> automation_listener_ids (broker w') (li_entityId sub)
           \<and> (\<forall>msg c. at_entity_id msg = li_entityId sub \<longrightarrow>
                 TriggerCall (li_id sub) c \<notin>
                   set (snd (snd (API_onAutomationTrigger (broker w') msg))))"
    using au au_ev by blast
  moreover have "\<forall>now. observed (checkQueue w' now) = observed w'"
    using checkQueue_empty [OF parts(3)] by simp
  moreover have "\<forall>current. observed (snd (checkEachMinute current w')) = observed w'"
    using checkEachMinute_empty [OF parts(4)] by simp
  ultimately show ?thesis
    using parts(1-8) by (intro exI [of _ w']) (simp only: simp_thms)
qed

lemma ex_colliding_parts:
  "timeouts (this ex_colliding) = [3, 4]"
  "intervals (this ex_colliding) = [1, 2]"
  "queue (this ex_colliding) =
     [\<lparr>q_id = (5000, 11), q_date = 9000, q_callback = ex_task\<rparr>,
      \<lparr>q_id = (5000, 12), q_date = 9500, q_callback = ex_task\<rparr>,
      \<lparr>q_id = (5000, 11), q_date = 9900, q_callback = ex_task\<rparr>]"
  "eachMinutes (this ex_colliding) = [\<lparr>em_id = (5000, 3), em_callback = ex_task\<rparr>]"
  "stateSubscriptions (this ex_colliding) = [\<lparr>li_id = 5007, li_entityId = ''light.kitchen''\<rparr>]"
  "broker ex_colliding = broker ex_module"
  by (simp_all add: ex_colliding_def runAt_def Let_def ex_module_parts)

lemma destroy_ex_colliding:
  "fst (destroy ex_unsubscribe ex_colliding) =
     Some (TypeError ''Cannot read properties of undefined (reading id)'')"
  "broker (snd (destroy ex_unsubscribe ex_colliding)) = broker ex_module"
  "eachMinutes (this (snd (destroy ex_unsubscribe ex_colliding))) =
     eachMinutes (this ex_colliding)"
proof -
  define w2 where
    "w2 = ex_colliding\<lparr>host := (host ex_colliding)\<lparr>active :=
              active (host ex_colliding) - set (timeouts (this ex_colliding))
                - set (intervals (this ex_colliding))\<rparr>,
            this := (this ex_colliding)\<lparr>timeouts := [], intervals := []\<rparr>\<rparr>"
  have a: "seq (\<lambda>w. (None, destroy_timeouts (length (timeouts (this w))) w))
             (seq (\<lambda>w. (None, destroy_intervals (length (intervals (this w))) w)) rest)
             ex_colliding = rest w2" for rest
    by (simp add: seq_def destroy_timeouts_all destroy_intervals_all w2_def)
  have q: "queue (this w2) =
     [\<lparr>q_id = (5000, 11), q_date = 9000, q_callback = ex_task\<rparr>,
      \<lparr>q_id = (5000, 12), q_date = 9500, q_callback = ex_task\<rparr>,
      \<lparr>q_id = (5000, 11), q_date = 9900, q_callback = ex_task\<rparr>]"
    by (simp add: w2_def ex_colliding_parts)
  have three: "(3::nat) = Suc (Suc (Suc 0))" by simp
  have dq: "fst (destroy_queue (length (queue (this w2))) w2) =
              Some (TypeError ''Cannot read properties of undefined (reading id)'')"
    unfolding q by (simp add: three js_nth_def clearRunAt_shape q)
  obtain e w3 where r: "destroy_queue (length (queue (this w2))) w2 = (Some e, w3)"
    using dq by (cases "destroy_queue (length (queue (this w2))) w2") auto
  with dq have e: "e = TypeError ''Cannot read properties of undefined (reading id)''"
    by simp
  from destroy_queue_shape [of "length (queue (this w2))" w2] r obtain q' r' where
    w3: "w3 = w2\<lparr>this := (this w2)\<lparr>queue := q'\<rparr>, running := r'\<rparr>"
    by auto
  have b: "seq (\<lambda>w. destroy_queue (length (queue (this w))) w) rest w2 = (Some e, w3)" for rest
    by (simp add: seq_def r)
  have d: "destroy ex_unsubscribe ex_colliding = (Some e, w3)"
    by (simp only: destroy_def a b)
  show "fst (destroy ex_unsubscribe ex_colliding) =
     Some (TypeError ''Cannot read properties of undefined (reading id)'')"
    by (simp add: d e)
  show "broker (snd (destroy ex_unsubscribe ex_colliding)) = broker ex_module"
    by (simp add: d w3 w2_def ex_colliding_parts)
  show "eachMinutes (this (snd (destroy ex_unsubscribe ex_colliding))) =
     eachMinutes (this ex_colliding)"
    by (simp add: d w3 w2_def)
qed

lemma destroy_releases_what_is_tracked_example:
  "distinct (map q_id (queue (this ex_module)))
   \<and> mqttSubscriptions (this ex_module) = []
   \<and> fst (destroy ex_unsubscribe ex_module) = None
   \<and> timeouts (this (snd (destroy ex_unsubscribe ex_module))) = []
   \<and> intervals (this (snd (destroy ex_unsubscribe ex_module))) = []
   \<and> queue (this (snd (destroy ex_unsubscribe ex_module))) = []
   \<and> eachMinutes (this (snd (destroy ex_unsubscribe ex_module))) = []
   \<and> active (host (snd (destroy ex_unsubscribe ex_module))) = {}
   \<and> 5007 \<notin> state_listener_ids (broker (snd (destroy ex_unsubscribe ex_module))) ''light.kitchen''
   \<and> 5008 \<notin> automation_listener_ids (broker (snd (destroy ex_unsubscribe ex_module)))
               ''automation.motion''
   \<and> observed (checkQueue (snd (destroy ex_unsubscribe ex_module)) 9999) =
       observed (snd (destroy ex_unsubscribe ex_module))"
proof -
  have 1: "distinct (map q_id (queue (this ex_module)))"
    by (simp add: ex_module_parts)
  have 2: "\<forall>s \<in> set (mqttSubscriptions (this ex_module)). ex_unsubscribe (fst s) (snd s) = None"
    by (simp add: ex_module_parts)
  from destroy_releases_what_is_tracked [OF 1 2] obtain w' where
    d: "destroy ex_unsubscribe ex_module = (None, w')"
    and lists: "timeouts (this w') = []" "intervals (this w') = []" "queue (this w') = []"
      "eachMinutes (this w') = []"
    and act: "active (host w') = active (host ex_module) - set (timeouts (this ex_module))
                 - set (intervals (this ex_module))"
    and st: "\<forall>sub \<in> set (stateSubscriptions (this ex_module)).
               li_id sub \<notin> state_listener_ids (broker w') (li_entityId sub)"
    and au: "\<forall>sub \<in> set (automationSubscriptions (this ex_module)).
               li_id sub \<notin> automation_listener_ids (broker w') (li_entityId sub)"
    and poll: "\<forall>now. observed (checkQueue w' now) = observed w'"
    by blast
  from st have "5007 \<notin> state_listener_ids (broker w') ''light.kitchen''"
    by (simp add: ex_module_parts)
  moreover from au have "5008 \<notin> automation_listener_ids (broker w') ''automation.motion''"
    by (simp add: ex_module_parts)
  moreover have "active (host w') = {}"
    by (auto simp: act ex_module_parts)
  ultimately show ?thesis
    using 1 lists poll by (simp add: d ex_module_parts)
qed

text \<open>
  C4. The claim asks that a release step that throws does not keep the later ones from
  being made. The loops over the state and automation subscriptions enclose each release
  in a \<^verbatim>\<open>try\<close>; the loop over the queue does not, and it throws when two delayed tasks
  have the same id: \<^verbatim>\<open>clearRunAt\<close> then removes both at once, and the next round reads
  \<^verbatim>\<open>.id\<close> of an element that is no longer there. On the example module with such a
  queue \<open>destroy\<close> throws a \<^verbatim>\<open>TypeError\<close>, and the releases after the queue are not
  made: the module's state listener 5007 and trigger listener 5008 are still in the
  broker's registries, and its per-minute callback is still in its list.
\<close>

theorem destroy_aborts_on_equal_task_ids:
  "map q_id (queue (this ex_colliding)) = [(5000, 11), (5000, 12), (5000, 11)]
   \<and> fst (destroy ex_unsubscribe ex_colliding) =
       Some (TypeError ''Cannot read properties of undefined (reading id)'')
   \<and> stateSubscriptions (this ex_colliding) = [\<lparr>li_id = 5007, li_entityId = ''light.kitchen''\<rparr>]
   \<and> stateListeners (broker (snd (destroy ex_unsubscribe ex_colliding))) ''light.kitchen'' =
       Some [\<lparr>sl_id = 1017, sl_callback = ex_throws\<rparr>, \<lparr>sl_id = 2004, sl_callback = ex_returns\<rparr>,
             \<lparr>sl_id = 5007, sl_callback = ex_returns\<rparr>]
   \<and> automationListeners (broker (snd (destroy ex_unsubscribe ex_colliding)))
         ''automation.motion'' =
       Some [\<lparr>al_id = 3005, al_callback = ex_trigger_throws\<rparr>,
             \<lparr>al_id = 4006, al_callback = ex_trigger_returns\<rparr>,
             \<lparr>al_id = 5008, al_callback = ex_trigger_returns\<rparr>]
   \<and> eachMinutes (this (snd (destroy ex_unsubscribe ex_colliding))) =
       [\<lparr>em_id = (5000, 3), em_callback = ex_task\<rparr>]"
  by (simp add: destroy_ex_colliding ex_colliding_parts ex_module_parts)

subsection \<open>The poller of the delayed tasks\<close>

lemma checkQueue_complete_idle: "running w = [] \<Longrightarrow> checkQueue_complete fuel w = w"
  by (cases fuel) simp_all

lemma drop_Suc_of_drop: "drop i xs = y # ys \<Longrightarrow> drop (Suc i) xs = ys"
  by (metis drop_Suc tl_drop list.sel(3))

lemma poll_runs_to_completion:
  assumes "running w = []" and "drop i (queue (this w)) = xs" and "length xs \<le> fuel"
  shows "checkQueue_complete fuel
           (checkQueue_continue w \<lparr>p_now = now, p_index = i, p_array = None\<rparr>) =
         w\<lparr>this := (this w)\<lparr>queue := filter (\<lambda>q. now < q_date q) (queue (this w))\<rparr>,
           observed := observed w @ task_entries now xs\<rparr>"
  using assms
proof (induction xs arbitrary: i w fuel)
  case Nil
  then show ?case
    by (simp add: checkQueue_continue_def poll_array_def assign_queue_def task_entries_def
        checkQueue_complete_idle)
next
  case (Cons q qs)
  have next_drop: "drop (Suc i) (queue (this w)) = qs"
    using Cons.prems(2) by (rule drop_Suc_of_drop)
  show ?case
  proof (cases "q_date q \<le> now")
    case False
    have "checkQueue_continue w \<lparr>p_now = now, p_index = i, p_array = None\<rparr> =
          checkQueue_continue w \<lparr>p_now = now, p_index = Suc i, p_array = None\<rparr>"
      using False Cons.prems(2) next_drop
      by (simp add: checkQueue_continue_def poll_array_def split: prod.splits option.splits)
    moreover have "length qs \<le> fuel" using Cons.prems(3) by simp
    ultimately show ?thesis
      using Cons.IH [OF Cons.prems(1) next_drop, of fuel] False
      by (simp add: task_entries_def)
  next
    case True
    show ?thesis
    proof (cases "q_callback q ()")
      case (Inl e)
      let ?w' = "w\<lparr>observed := observed w @ [TaskCall (q_id q), LogError e]\<rparr>"
      have "checkQueue_continue w \<lparr>p_now = now, p_index = i, p_array = None\<rparr> =
            checkQueue_continue ?w' \<lparr>p_now = now, p_index = Suc i, p_array = None\<rparr>"
        using True Inl Cons.prems(2) next_drop
        by (simp add: checkQueue_continue_def poll_array_def assign_queue_def
            split: prod.splits option.splits)
      moreover have "length qs \<le> fuel" using Cons.prems(3) by simp
      moreover have "running ?w' = []" "drop (Suc i) (queue (this ?w')) = qs"
        using Cons.prems(1) next_drop by simp_all
      ultimately show ?thesis
        using Cons.IH [of ?w' "Suc i" fuel] True Inl
        by (simp add: task_entries_def)
    next
      case (Inr u)
      let ?w' = "w\<lparr>observed := observed w @ [TaskCall (q_id q)]\<rparr>"
      from Cons.prems(3) obtain fuel' where fuel: "fuel = Suc fuel'" "length qs \<le> fuel'"
        by (cases fuel) auto
      have susp: "checkQueue_continue w \<lparr>p_now = now, p_index = i, p_array = None\<rparr> =
            w\<lparr>running := [\<lparr>p_now = now, p_index = i, p_array = None\<rparr>],
              observed := observed w @ [TaskCall (q_id q)]\<rparr>"
        using True Inr Cons.prems(1,2)
        by (simp add: checkQueue_continue_def poll_array_def)
      have res: "checkQueue_resume
              (w\<lparr>running := [\<lparr>p_now = now, p_index = i, p_array = None\<rparr>],
                 observed := observed w @ [TaskCall (q_id q)]\<rparr>) 0 None =
            checkQueue_continue ?w' \<lparr>p_now = now, p_index = Suc i, p_array = None\<rparr>"
      proof -
        have "w\<lparr>running := [], observed := observed w @ [TaskCall (q_id q)]\<rparr> = ?w'"
          using Cons.prems(1) by (cases w) simp
        then show ?thesis
          by (simp add: checkQueue_resume_def js_nth_def)
      qed
      have "running ?w' = []" "drop (Suc i) (queue (this ?w')) = qs"
        using Cons.prems(1) next_drop by simp_all
      from Cons.IH [OF this fuel(2)] show ?thesis
        using True Inr by (simp add: susp fuel(1) res task_entries_def)
    qed
  qed
qed


lemma calls_task_entries:
  "filter is_call (task_entries now xs) =
     map (\<lambda>q. TaskCall (q_id q)) (filter (\<lambda>q. q_date q \<le> now) xs)"
  unfolding task_entries_def
proof (induction xs)
  case Nil
  then show ?case by simp
next
  case (Cons q qs)
  then show ?case by (cases "q_callback q ()") auto
qed

text \<open>
  A poll that nothing overlaps invokes the tasks that are due at its \<open>now\<close>, each once
  and in the order of the queue, and leaves in the queue exactly the tasks that are not due.
\<close>

lemma poll_alone_fires_due_tasks_once:
  assumes "running w = []"
  shows "checkQueue_complete (length (queue (this w))) (checkQueue w now) =
           w\<lparr>this := (this w)\<lparr>queue := filter (\<lambda>q. now < q_date q) (queue (this w))\<rparr>,
             observed := observed w @ task_entries now (queue (this w))\<rparr>"
  unfolding checkQueue_def
  using assms by (intro poll_runs_to_completion) simp_all

lemma poll_alone_with_fuel:
  assumes "running w = []" and "length (queue (this w)) \<le> fuel"
  shows "checkQueue_complete fuel (checkQueue w now) =
           w\<lparr>this := (this w)\<lparr>queue := filter (\<lambda>q. now < q_date q) (queue (this w))\<rparr>,
             observed := observed w @ task_entries now (queue (this w))\<rparr>"
  unfolding checkQueue_def
  using assms by (intro poll_runs_to_completion) simp_all

lemma distinct_two_rounds:
  "distinct (map q_id xs) \<Longrightarrow>
   distinct (map q_id (filter (\<lambda>q. q_date q \<le> now1) xs @
                       filter (\<lambda>q. q_date q \<le> now2) (filter (\<lambda>q. now1 < q_date q) xs)))"
  by (induction xs) (auto simp: image_iff)

text \<open>
  Two polls of which the second starts after the first has finished: what they invoke is
  the tasks due at the first, then the remaining tasks due at the second, and no id occurs
  twice when the ids in the queue are pairwise distinct.
\<close>

lemma polls_in_turn_fire_each_task_once:
  assumes "running w = []"
  shows "filter is_call
           (observed (checkQueue_complete (length (queue (this w)))
              (checkQueue (checkQueue_complete (length (queue (this w))) (checkQueue w now1)) now2))) =
         filter is_call (observed w) @
         map (\<lambda>q. TaskCall (q_id q))
           (filter (\<lambda>q. q_date q \<le> now1) (queue (this w)) @
            filter (\<lambda>q. q_date q \<le> now2) (filter (\<lambda>q. now1 < q_date q) (queue (this w))))"
    and "distinct (map q_id (queue (this w))) \<Longrightarrow>
         distinct (map q_id
           (filter (\<lambda>q. q_date q \<le> now1) (queue (this w)) @
            filter (\<lambda>q. q_date q \<le> now2) (filter (\<lambda>q. now1 < q_date q) (queue (this w)))))"
proof -
  let ?q = "queue (this w)"
  let ?w1 = "checkQueue_complete (length ?q) (checkQueue w now1)"
  have w1: "?w1 = w\<lparr>this := (this w)\<lparr>queue := filter (\<lambda>q. now1 < q_date q) ?q\<rparr>,
                     observed := observed w @ task_entries now1 ?q\<rparr>"
    using assms by (rule poll_alone_fires_due_tasks_once)
  have r1: "running ?w1 = []" and q1: "queue (this ?w1) = filter (\<lambda>q. now1 < q_date q) ?q"
    and o1: "observed ?w1 = observed w @ task_entries now1 ?q"
    using assms by (simp_all add: w1)
  have "length (queue (this ?w1)) \<le> length ?q"
    by (simp add: q1)
  with r1 have "checkQueue_complete (length ?q) (checkQueue ?w1 now2) =
        ?w1\<lparr>this := (this ?w1)\<lparr>queue := filter (\<lambda>q. now2 < q_date q) (queue (this ?w1))\<rparr>,
            observed := observed ?w1 @ task_entries now2 (queue (this ?w1))\<rparr>"
    by (rule poll_alone_with_fuel)
  then have "observed (checkQueue_complete (length ?q) (checkQueue ?w1 now2)) =
        observed w @ task_entries now1 ?q @ task_entries now2 (filter (\<lambda>q. now1 < q_date q) ?q)"
    by (simp add: o1 q1)
  then show "filter is_call
           (observed (checkQueue_complete (length ?q) (checkQueue ?w1 now2))) =
         filter is_call (observed w) @
         map (\<lambda>q. TaskCall (q_id q))
           (filter (\<lambda>q. q_date q \<le> now1) ?q @
            filter (\<lambda>q. q_date q \<le> now2) (filter (\<lambda>q. now1 < q_date q) ?q))"
    by (simp add: calls_task_entries)
  show "distinct (map q_id
           (filter (\<lambda>q. q_date q \<le> now1) ?q @
            filter (\<lambda>q. q_date q \<le> now2) (filter (\<lambda>q. now1 < q_date q) ?q)))"
    if "distinct (map q_id ?q)"
    using that by (rule distinct_two_rounds)
qed

text \<open>
  C6. The claim asks that no task is invoked more than once across all polls. The poller
  calls \<^verbatim>\<open>_checkQueue\<close> every second, whether or not the call before has finished, and
  \<^verbatim>\<open>_checkQueue\<close> removes the tasks it has invoked only after the last \<^verbatim>\<open>await\<close>. On
  the example module, whose two tasks are due at 9000 and 9500 and return promises, a poll
  at 10000 invokes the first task and waits; the poll at 11000 finds the queue unchanged
  and invokes the first task again. When the promises resolve in turn, each of the two
  tasks has been invoked twice.
\<close>

theorem overlapping_polls_invoke_task_twice:
  "observed (checkQueue (checkQueue ex_module 10000) 11000) =
     [TaskCall (5000, 11), TaskCall (5000, 11)]
   \<and> queue (this (checkQueue (checkQueue ex_module 10000) 11000)) = queue (this ex_module)
   \<and> observed (checkQueue_resume (checkQueue_resume (checkQueue_resume (checkQueue_resume
        (checkQueue (checkQueue ex_module 10000) 11000) 0 None) 0 None) 0 None) 0 None) =
     [TaskCall (5000, 11), TaskCall (5000, 11), TaskCall (5000, 12), TaskCall (5000, 12)]
   \<and> running (checkQueue_resume (checkQueue_resume (checkQueue_resume (checkQueue_resume
        (checkQueue (checkQueue ex_module 10000) 11000) 0 None) 0 None) 0 None) 0 None) = []"
  by (simp add: checkQueue_def checkQueue_continue_def checkQueue_resume_def poll_array_def
      assign_queue_def js_nth_def detach_def ex_module_parts ex_task_def)

end
